theory Spec2Isabelle
  imports Complex_Main
begin

section \<open>Values of the host language\<close>

text \<open>
  The library is JavaScript. Strings are modelled as HOL strings, read as sequences of
  code units below 256 (Latin-1). The values that reach a constructor argument typed
  \<open>string\<close> are a string, \<open>undefined\<close> (an omitted argument, an array read out of range)
  or \<open>null\<close>.
\<close>

datatype jsval = Undefined | Null | Str string

text \<open>
  The three error classes of \<open>index.js\<close> that can be thrown: \<open>NumberFormatError\<close> (its
  message names the offending input, kept here as the payload), \<open>InvalidSortError\<close>, and
  the engine's own \<open>TypeError\<close> raised when a method is read from \<open>null\<close> or \<open>undefined\<close>.
\<close>

datatype error = NumberFormatError string | InvalidSortError | TypeError

text \<open>A query parameter, and the argument of \<open>parseSort\<close>: one string or an array of strings.\<close>

datatype qval = QStr string | QArr "string list"

subsection \<open>String primitives\<close>

text \<open>
  \<open>String.prototype.toLowerCase\<close> on code units below 256: the ASCII capitals and the
  Latin-1 capitals (\<open>0xC0\<close> to \<open>0xDE\<close> without the multiplication sign \<open>0xD7\<close>) move up
  by 32, everything else stays.
\<close>

definition lower_char :: "char \<Rightarrow> char" where
  "lower_char c =
     (let n = (of_char c :: nat)
      in if (65 \<le> n \<and> n \<le> 90) \<or> (192 \<le> n \<and> n \<le> 222 \<and> n \<noteq> 215)
         then char_of (n + 32) else c)"

definition toLowerCase :: "string \<Rightarrow> string" where
  "toLowerCase s = map lower_char s"

text \<open>
  \<open>String.prototype.split(sep)\<close> for a one-character separator: the pieces between the
  separators, empty pieces included; the empty string gives one empty piece.
\<close>

fun split :: "char \<Rightarrow> string \<Rightarrow> string list" where
  "split sep [] = [Nil]"
| "split sep (x # xs) =
     (if x = sep then [] # split sep xs
      else (case split sep xs of
              [] \<Rightarrow> [x] # []
            | t # ts \<Rightarrow> (x # t) # ts))"

text \<open>An array read: \<open>result[i]\<close> is \<open>undefined\<close> outside the array.\<close>

definition at_index :: "string list \<Rightarrow> nat \<Rightarrow> jsval" where
  "at_index xs i = (if i < length xs then Str (xs ! i) else Undefined)"

text \<open>\<open>lodash.isempty\<close> on the values that reach it: empty for \<open>undefined\<close>, \<open>null\<close> and \<open>''\<close>.\<close>

fun isEmpty :: "jsval \<Rightarrow> bool" where
  "isEmpty Undefined = True"
| "isEmpty Null = True"
| "isEmpty (Str s) = (length s = 0)"

text \<open>\<open>Array.prototype.map\<close> with a callback that may throw: the first throw ends the call.\<close>

fun map_throw :: "('a \<Rightarrow> error + 'b) \<Rightarrow> 'a list \<Rightarrow> error + 'b list" where
  "map_throw f [] = Inr []"
| "map_throw f (x # xs) =
     (case f x of
        Inl e \<Rightarrow> Inl e
      | Inr y \<Rightarrow> (case map_throw f xs of Inl e \<Rightarrow> Inl e | Inr ys \<Rightarrow> Inr (y # ys)))"

section \<open>Direction, Order and Sort\<close>

datatype Direction = asc | desc

text \<open>The enumeration's members are the strings \<open>'asc'\<close> and \<open>'desc'\<close>.\<close>

fun Direction_text :: "Direction \<Rightarrow> string" where
  "Direction_text asc = ''asc''"
| "Direction_text desc = ''desc''"

record Order =
  direction :: Direction
  "property" :: jsval

definition Order_DEFAULT_DIRECTION :: Direction where
  "Order_DEFAULT_DIRECTION = asc"

text \<open>
  \<open>new Order(property, direction = Order._DEFAULT_DIRECTION)\<close>. The default replaces an
  \<open>undefined\<close> argument only; \<open>direction.toLowerCase()\<close> on \<open>null\<close> throws a \<open>TypeError\<close>.
\<close>

definition Order_ctor :: "jsval \<Rightarrow> jsval \<Rightarrow> error + Order" where
  "Order_ctor prop dir0 =
     (let dir = (if dir0 = Undefined then Str (Direction_text Order_DEFAULT_DIRECTION) else dir0)
      in case dir of
           Str d \<Rightarrow>
             Inr \<lparr>direction = (if toLowerCase d = Direction_text desc then desc
                               else Order_DEFAULT_DIRECTION),
                  property = prop\<rparr>
         | _ \<Rightarrow> Inl TypeError)"

definition stringToDirection :: "jsval \<Rightarrow> error + Direction" where
  "stringToDirection dir =
     (if isEmpty dir then Inr Order_DEFAULT_DIRECTION
      else if dir = Str (Direction_text asc) then Inr asc
      else if dir = Str (Direction_text desc) then Inr desc
      else Inl InvalidSortError)"

record Sort =
  orders :: "Order list"

definition Sort_ctor :: "Order list \<Rightarrow> Sort" where
  "Sort_ctor os = \<lparr>orders = os\<rparr>"

subsection \<open>The sort parser\<close>

text \<open>
  \<open>parseSort\<close>: an array is split element-wise on commas and flattened (\<open>lodash.flatmap\<close>
  with the identity), a string is split directly; empty pieces are dropped; each survivor
  is split on colons, empty pieces dropped, and \<open>new Order(result[0],
  stringToDirection(result[1]))\<close> is built with the argument evaluated first.
\<close>

definition parseSort_order :: "string \<Rightarrow> error + Order" where
  "parseSort_order it =
     (let result = filter (\<lambda>v. length v > 0) (split CHR '':'' it)
      in case stringToDirection (at_index result 1) of
           Inl e \<Rightarrow> Inl e
         | Inr d \<Rightarrow> Order_ctor (at_index result 0) (Str (Direction_text d)))"

definition parseSort :: "qval \<Rightarrow> error + Sort" where
  "parseSort sortRequestQuery =
     (let paramArray =
            (case sortRequestQuery of
               QArr xs \<Rightarrow> concat (map (\<lambda>it. split CHR '','' it) xs)
             | QStr s \<Rightarrow> split CHR '','' s);
          validArray = filter (\<lambda>param. length param > 0) paramArray
      in case map_throw parseSort_order validArray of
           Inl e \<Rightarrow> Inl e
         | Inr orderList \<Rightarrow> Inr (Sort_ctor orderList))"

section \<open>Numbers\<close>

text \<open>
  A JavaScript \<open>number\<close> is modelled as an exact rational or one of \<open>NaN\<close>, \<open>Infinity\<close>,
  \<open>-Infinity\<close>. The results of division and subtraction are not rounded to a double and
  the sign of zero is not kept; on the integers below \<open>2^53\<close> that page numbers, sizes and
  element counts are, the quotient followed by \<open>Math.ceil\<close> is exact. Reading a decimal
  numeral does round to a double, see \<open>to_double\<close> below.
\<close>

datatype jsnum = Fin rat | NaN | PosInf | NegInf

fun js_div :: "jsnum \<Rightarrow> jsnum \<Rightarrow> jsnum" where
  "js_div NaN _ = NaN"
| "js_div _ NaN = NaN"
| "js_div (Fin a) (Fin b) =
     (if b \<noteq> 0 then Fin (a / b)
      else if a = 0 then NaN else if a > 0 then PosInf else NegInf)"
| "js_div (Fin a) PosInf = Fin 0"
| "js_div (Fin a) NegInf = Fin 0"
| "js_div PosInf (Fin b) = (if b \<ge> 0 then PosInf else NegInf)"
| "js_div NegInf (Fin b) = (if b \<ge> 0 then NegInf else PosInf)"
| "js_div PosInf PosInf = NaN"
| "js_div PosInf NegInf = NaN"
| "js_div NegInf PosInf = NaN"
| "js_div NegInf NegInf = NaN"

fun js_sub :: "jsnum \<Rightarrow> jsnum \<Rightarrow> jsnum" where
  "js_sub NaN _ = NaN"
| "js_sub _ NaN = NaN"
| "js_sub (Fin a) (Fin b) = Fin (a - b)"
| "js_sub (Fin a) PosInf = NegInf"
| "js_sub (Fin a) NegInf = PosInf"
| "js_sub PosInf (Fin b) = PosInf"
| "js_sub NegInf (Fin b) = NegInf"
| "js_sub PosInf PosInf = NaN"
| "js_sub PosInf NegInf = PosInf"
| "js_sub NegInf PosInf = NegInf"
| "js_sub NegInf NegInf = NaN"

fun Math_ceil :: "jsnum \<Rightarrow> jsnum" where
  "Math_ceil (Fin a) = Fin (of_int \<lceil>a\<rceil>)"
| "Math_ceil x = x"

fun Math_max :: "jsnum \<Rightarrow> jsnum \<Rightarrow> jsnum" where
  "Math_max NaN _ = NaN"
| "Math_max _ NaN = NaN"
| "Math_max PosInf _ = PosInf"
| "Math_max _ PosInf = PosInf"
| "Math_max NegInf y = y"
| "Math_max x NegInf = x"
| "Math_max (Fin a) (Fin b) = Fin (max a b)"

text \<open>\<open>a >= b\<close>: false as soon as one side is \<open>NaN\<close>.\<close>

fun js_ge :: "jsnum \<Rightarrow> jsnum \<Rightarrow> bool" where
  "js_ge NaN _ = False"
| "js_ge _ NaN = False"
| "js_ge PosInf _ = True"
| "js_ge _ NegInf = True"
| "js_ge (Fin a) (Fin b) = (a \<ge> b)"
| "js_ge (Fin a) PosInf = False"
| "js_ge NegInf (Fin b) = False"
| "js_ge NegInf PosInf = False"

text \<open>\<open>a === b\<close> on numbers: \<open>NaN\<close> equals nothing.\<close>

definition js_eq :: "jsnum \<Rightarrow> jsnum \<Rightarrow> bool" where
  "js_eq a b = (a \<noteq> NaN \<and> a = b)"

text \<open>A number is falsy when it is zero or \<open>NaN\<close>.\<close>

definition falsy_num :: "jsnum \<Rightarrow> bool" where
  "falsy_num n = (n = Fin 0 \<or> n = NaN)"

subsection \<open>Reading integers\<close>

text \<open>
  \<open>parseInt(input, 10)\<close>: leading white space is skipped, one sign is read, then the
  longest run of decimal digits; no digit gives \<open>NaN\<close>, and what follows the digits is
  ignored. The result is the Number value of the signed integer the digits denote: the
  integer itself below \<open>2^53\<close>, otherwise the integer rounded to 53 significant bits,
  ties to the even significand, and \<open>Infinity\<close> once the rounded value reaches \<open>2^1024\<close>.
  (The language lets an implementation replace the digits after the twentieth by zeros
  before rounding; the model rounds the exact value.)
\<close>

definition isWhiteSpace :: "char \<Rightarrow> bool" where
  "isWhiteSpace c = ((of_char c :: nat) \<in> {9, 10, 11, 12, 13, 32, 160})"

definition isDigit :: "char \<Rightarrow> bool" where
  "isDigit c = (48 \<le> (of_char c :: nat) \<and> (of_char c :: nat) \<le> 57)"

definition digits_value :: "string \<Rightarrow> nat" where
  "digits_value z = foldl (\<lambda>acc c. 10 * acc + ((of_char c :: nat) - 48)) 0 z"

text \<open>The number of binary digits of a natural number.\<close>

fun bitlen :: "nat \<Rightarrow> nat" where
  "bitlen n = (if n = 0 then 0 else Suc (bitlen (n div 2)))"

declare bitlen.simps [simp del]

text \<open>The Number value of a natural number: round to nearest, ties to even.\<close>

definition to_double :: "nat \<Rightarrow> jsnum" where
  "to_double n =
     (if n < 2 ^ 53 then Fin (of_nat n)
      else
        (let k = bitlen n - 53;
             q = n div 2 ^ k;
             r = n mod 2 ^ k;
             q' = (if 2 * r > 2 ^ k \<or> (2 * r = 2 ^ k \<and> odd q) then q + 1 else q);
             m = q' * 2 ^ k
         in if m \<ge> 2 ^ 1024 then PosInf else Fin (of_nat m)))"

text \<open>Unary minus on numbers.\<close>

fun js_neg :: "jsnum \<Rightarrow> jsnum" where
  "js_neg (Fin a) = Fin (- a)"
| "js_neg NaN = NaN"
| "js_neg PosInf = NegInf"
| "js_neg NegInf = PosInf"

definition parseInt :: "string \<Rightarrow> jsnum" where
  "parseInt inputString =
     (let s = dropWhile isWhiteSpace inputString;
          neg = (case s of c # _ \<Rightarrow> c = CHR ''-'' | [] \<Rightarrow> False);
          s' = (case s of c # r \<Rightarrow> if c = CHR ''-'' \<or> c = CHR ''+'' then r else s | [] \<Rightarrow> s);
          z = takeWhile isDigit s'
      in if z = [] then NaN
         else if neg then js_neg (to_double (digits_value z))
         else to_double (digits_value z))"

text \<open>\<open>ToString\<close> of a query value: an array is its elements joined by commas.\<close>

fun join_comma :: "string list \<Rightarrow> string" where
  "join_comma [] = []"
| "join_comma [x] = x"
| "join_comma (x # y # ys) = x @ CHR '','' # join_comma (y # ys)"

fun ToString :: "qval \<Rightarrow> string" where
  "ToString (QStr s) = s"
| "ToString (QArr xs) = join_comma xs"

definition parseIntOrThrow :: "qval \<Rightarrow> error + jsnum" where
  "parseIntOrThrow input =
     (let result = parseInt (ToString input)
      in if result = NaN then Inl (NumberFormatError (ToString input)) else Inr result)"

text \<open>\<open>!input\<close> holds for an absent parameter and for the empty string; an array is truthy.\<close>

fun not_input :: "qval option \<Rightarrow> bool" where
  "not_input None = True"
| "not_input (Some (QStr s)) = (s = [])"
| "not_input (Some (QArr xs)) = False"

definition parseOptionalIntOrThrow :: "qval option \<Rightarrow> error + jsnum option" where
  "parseOptionalIntOrThrow input =
     (if not_input input then Inr None
      else (case parseIntOrThrow (the input) of Inl e \<Rightarrow> Inl e | Inr n \<Rightarrow> Inr (Some n)))"

text \<open>\<open>x || d\<close> for \<open>x\<close> a number or \<open>null\<close>.\<close>

fun or_default :: "jsnum option \<Rightarrow> jsnum \<Rightarrow> jsnum" where
  "or_default None d = d"
| "or_default (Some n) d = (if falsy_num n then d else n)"

section \<open>Pageable\<close>

record Pageable =
  pageable_page :: jsnum
  pageable_size :: jsnum
  pageable_sort :: "Sort option"
  pageable_indexed :: bool

text \<open>
  The constructor's fourth argument: absent (\<open>undefined\<close> or \<open>null\<close>), a raw query value,
  or a \<open>Sort\<close> instance. \<open>if (sort)\<close> is false for the absent argument and for the empty
  string.
\<close>

datatype sort_arg = NoSort | RawSort qval | SortObj Sort

fun truthy_sort :: "sort_arg \<Rightarrow> bool" where
  "truthy_sort NoSort = False"
| "truthy_sort (RawSort (QStr s)) = (s \<noteq> [])"
| "truthy_sort (RawSort (QArr xs)) = True"
| "truthy_sort (SortObj s) = True"

text \<open>
  \<open>new Pageable(pageNumber = 0, pageSize = 20, indexed = false, sort)\<close>; \<open>None\<close> is an
  omitted argument. The field \<open>sort\<close> stays unset unless the argument is truthy.
\<close>

definition Pageable_ctor ::
  "jsnum option \<Rightarrow> jsnum option \<Rightarrow> bool option \<Rightarrow> sort_arg \<Rightarrow> error + Pageable" where
  "Pageable_ctor pageNumber pageSize indexed sortArg =
     (let this = \<lparr>pageable_page = (case pageNumber of None \<Rightarrow> Fin 0 | Some n \<Rightarrow> n),
                  pageable_size = (case pageSize of None \<Rightarrow> Fin 20 | Some n \<Rightarrow> n),
                  pageable_sort = None,
                  pageable_indexed = (case indexed of None \<Rightarrow> False | Some b \<Rightarrow> b)\<rparr>
      in if truthy_sort sortArg then
           (case sortArg of
              SortObj s \<Rightarrow> Inr (this\<lparr>pageable_sort := Some s\<rparr>)
            | RawSort q \<Rightarrow>
                (case parseSort q of
                   Inl e \<Rightarrow> Inl e
                 | Inr s \<Rightarrow> Inr (this\<lparr>pageable_sort := Some s\<rparr>))
            | NoSort \<Rightarrow> Inr this)
         else Inr this)"

section \<open>The page hierarchy\<close>

text \<open>
  The fields of the classes are prefixed with the class they belong to, since the classes
  share field names. \<open>numberOfElements\<close> is declared by the base class and set by the
  subclasses only: \<open>None\<close> is the unset field.
\<close>

record Page =
  page_number :: jsnum
  page_size :: jsnum
  page_numberOfElements :: "nat option"
  page_totalElements :: jsnum
  page_totalPages :: jsnum
  page_sort :: "Sort option"
  page_first :: bool
  page_last :: bool

definition Page_ctor :: "jsnum \<Rightarrow> Pageable \<Rightarrow> Page" where
  "Page_ctor totalElements pageable =
     (let number = pageable_page pageable;
          size = pageable_size pageable;
          totalPages = Math_max (Math_ceil (js_div totalElements size)) (Fin 1)
      in \<lparr>page_number = number,
          page_size = size,
          page_numberOfElements = None,
          page_totalElements = totalElements,
          page_totalPages = totalPages,
          page_sort = pageable_sort pageable,
          page_first = js_eq number (Fin 0),
          page_last = js_ge number (js_sub totalPages (Fin 1))\<rparr>)"

text \<open>A page hands its own \<open>sort\<close> field, a \<open>Sort\<close> or unset, to the \<open>Pageable\<close> it derives.\<close>

fun sort_field_arg :: "Sort option \<Rightarrow> sort_arg" where
  "sort_field_arg None = NoSort"
| "sort_field_arg (Some s) = SortObj s"

subsection \<open>ArrayPage\<close>

record 'a ArrayPage = Page +
  array_content :: "'a list"

text \<open>\<open>content = []\<close> is the default of an omitted first argument.\<close>

definition ArrayPage_ctor :: "'a list option \<Rightarrow> jsnum \<Rightarrow> Pageable \<Rightarrow> 'a ArrayPage" where
  "ArrayPage_ctor content0 totalElements pageable =
     (let content = (case content0 of None \<Rightarrow> [] | Some c \<Rightarrow> c);
          base = Page_ctor totalElements pageable
      in Page.extend (base\<lparr>page_numberOfElements := Some (length content)\<rparr>)
           (ArrayPage.fields content))"

text \<open>\<open>Array.prototype.map\<close>: the callback receives the element and its index.\<close>

definition Array_map :: "('a \<Rightarrow> nat \<Rightarrow> 'b) \<Rightarrow> 'a list \<Rightarrow> 'b list" where
  "Array_map iteratee xs = map (\<lambda>(i, x). iteratee x i) (enumerate 0 xs)"

definition ArrayPage_map_pageable :: "'a ArrayPage \<Rightarrow> error + Pageable" where
  "ArrayPage_map_pageable this =
     Pageable_ctor (Some (page_number this)) (Some (page_size this)) (Some False)
       (sort_field_arg (page_sort this))"

definition ArrayPage_map :: "('a \<Rightarrow> nat \<Rightarrow> 'b) \<Rightarrow> 'a ArrayPage \<Rightarrow> error + 'b ArrayPage" where
  "ArrayPage_map iteratee this =
     (let content = Array_map iteratee (array_content this)
      in case ArrayPage_map_pageable this of
           Inl e \<Rightarrow> Inl e
         | Inr pageable \<Rightarrow> Inr (ArrayPage_ctor (Some content) (page_totalElements this) pageable))"

subsection \<open>IndexedPage\<close>

text \<open>
  An object used as a map is the list of its entries, keys distinct. \<open>obj_put\<close> is the
  assignment \<open>obj[key] = value\<close>; \<open>Object.values(obj).length\<close> is the number of entries.
\<close>

fun obj_put :: "('k \<times> 'v) list \<Rightarrow> 'k \<Rightarrow> 'v \<Rightarrow> ('k \<times> 'v) list" where
  "obj_put [] k v = [(k, v)]"
| "obj_put ((k', v') # es) k v =
     (if k' = k then (k, v) # es else (k', v') # obj_put es k v)"

record ('i, 'a) IndexedPage = Page +
  indexed_ids :: "'i list"
  indexed_index :: "('i \<times> 'a) list"

definition IndexedPage_ctor ::
  "'i list \<Rightarrow> ('i \<times> 'a) list \<Rightarrow> jsnum \<Rightarrow> Pageable \<Rightarrow> ('i, 'a) IndexedPage" where
  "IndexedPage_ctor ids index totalElements pageable =
     (let base = Page_ctor totalElements pageable
      in Page.extend (base\<lparr>page_numberOfElements := Some (length index)\<rparr>)
           (IndexedPage.fields ids index))"

text \<open>
  \<open>lodash.mapvalues\<close> is a dependency, not a file of the repository; from its
  documentation: an object with the same keys, each value the result of running the
  entry through the iteratee, which receives the value and the key.
\<close>

definition mapValues :: "('k \<times> 'v) list \<Rightarrow> ('v \<Rightarrow> 'k \<Rightarrow> 'w) \<Rightarrow> ('k \<times> 'w) list" where
  "mapValues obj iteratee = map (\<lambda>(k, v). (k, iteratee v k)) obj"

definition IndexedPage_map_pageable :: "('i, 'a) IndexedPage \<Rightarrow> error + Pageable" where
  "IndexedPage_map_pageable this =
     Pageable_ctor (Some (page_number this)) (Some (page_size this)) (Some True)
       (sort_field_arg (page_sort this))"

definition IndexedPage_map ::
  "('a \<Rightarrow> 'i \<Rightarrow> 'b) \<Rightarrow> ('i, 'a) IndexedPage \<Rightarrow> error + ('i, 'b) IndexedPage" where
  "IndexedPage_map iteratee this =
     (let mappedIndex = mapValues (indexed_index this) iteratee
      in case IndexedPage_map_pageable this of
           Inl e \<Rightarrow> Inl e
         | Inr pageable \<Rightarrow>
             Inr (IndexedPage_ctor (indexed_ids this) mappedIndex (page_totalElements this)
                    pageable))"

subsection \<open>IndexablePage\<close>

record 'a IndexablePage = Page +
  indexable_content :: "'a list"
  indexable_indexed :: bool

definition IndexablePage_ctor :: "'a list option \<Rightarrow> jsnum \<Rightarrow> Pageable \<Rightarrow> 'a IndexablePage" where
  "IndexablePage_ctor content0 totalElements pageable =
     (let content = (case content0 of None \<Rightarrow> [] | Some c \<Rightarrow> c);
          base = Page_ctor totalElements pageable
      in Page.extend (base\<lparr>page_numberOfElements := Some (length content)\<rparr>)
           (IndexablePage.fields content (pageable_indexed pageable)))"

definition IndexablePage_pageable :: "'a IndexablePage \<Rightarrow> error + Pageable" where
  "IndexablePage_pageable this =
     Pageable_ctor (Some (page_number this)) (Some (page_size this))
       (Some (indexable_indexed this)) (sort_field_arg (page_sort this))"

definition IndexablePage_map ::
  "('a \<Rightarrow> nat \<Rightarrow> 'b) \<Rightarrow> 'a IndexablePage \<Rightarrow> error + 'b IndexablePage" where
  "IndexablePage_map iteratee this =
     (let content = Array_map iteratee (indexable_content this)
      in case IndexablePage_pageable this of
           Inl e \<Rightarrow> Inl e
         | Inr pageable \<Rightarrow>
             Inr (IndexablePage_ctor (Some content) (page_totalElements this) pageable))"

text \<open>
  \<open>lodash.keyby\<close> is a dependency, not a file of the repository; from its documentation:
  an object keyed by the iteratee's result on each element, the value of a key being the
  last element that produced it. Here the iteratee reads the field \<open>id\<close>, passed as
  \<open>getId\<close>; distinct ids are taken to give distinct keys.
\<close>

definition keyBy :: "'a list \<Rightarrow> ('a \<Rightarrow> 'i) \<Rightarrow> ('i \<times> 'a) list" where
  "keyBy collection getId = foldl (\<lambda>result x. obj_put result (getId x) x) [] collection"

datatype ('i, 'a) json_page = AsIndexed "('i, 'a) IndexedPage" | AsArray "'a ArrayPage"

definition IndexablePage_toJSON ::
  "('a \<Rightarrow> 'i) \<Rightarrow> 'a IndexablePage \<Rightarrow> error + ('i, 'a) json_page" where
  "IndexablePage_toJSON getId this =
     (if indexable_indexed this then
        (let ids = map getId (indexable_content this);
             contentById = keyBy (indexable_content this) getId
         in case IndexablePage_pageable this of
              Inl e \<Rightarrow> Inl e
            | Inr pageable \<Rightarrow>
                Inr (AsIndexed (IndexedPage_ctor ids contentById (page_totalElements this)
                       pageable)))
      else
        (case IndexablePage_pageable this of
           Inl e \<Rightarrow> Inl e
         | Inr pageable \<Rightarrow>
             Inr (AsArray (ArrayPage_ctor (Some (indexable_content this))
                    (page_totalElements this) pageable))))"

section \<open>Iterating a Sort\<close>

text \<open>
  \<open>Sort[Symbol.iterator]\<close> returns a closure over \<open>values\<close>, \<open>count\<close> and \<open>done\<close>; the
  record is that closure's state. \<open>next\<close> sets \<open>done\<close> from the old \<open>count\<close>, then reads
  \<open>values[count += 1]\<close>: the index is the incremented count, and a read past the end is
  \<open>undefined\<close> (\<open>None\<close>).
\<close>

record iterator =
  it_values :: "Order list"
  it_count :: nat
  it_done :: bool

definition Sort_iterator :: "Sort \<Rightarrow> iterator" where
  "Sort_iterator this = \<lparr>it_values = orders this, it_count = 0, it_done = False\<rparr>"

definition iterator_next :: "iterator \<Rightarrow> (bool \<times> Order option) \<times> iterator" where
  "iterator_next it =
     (let done = (it_count it \<ge> length (it_values it));
          count = it_count it + 1;
          v = (if count < length (it_values it) then Some (it_values it ! count) else None)
      in ((done, v), it\<lparr>it_count := count, it_done := done\<rparr>))"

text \<open>
  \<open>for (const order of sort)\<close>: \<open>next\<close> is called until it reports \<open>done\<close>; the values
  of the calls before that are the loop's items, in order.
\<close>

function for_of :: "iterator \<Rightarrow> Order option list" where
  "for_of it =
     (case iterator_next it of
        ((done, v), it') \<Rightarrow> if done then [] else v # for_of it')"
  by pat_completeness auto
termination
  by (relation "measure (\<lambda>it. Suc (length (it_values it)) - it_count it)")
     (auto simp: iterator_next_def Let_def)

declare for_of.simps [simp del]

definition Sort_iterate :: "Sort \<Rightarrow> Order option list" where
  "Sort_iterate this = for_of (Sort_iterator this)"

section \<open>The entry point\<close>

record Query =
  query_page :: "qval option"
  query_size :: "qval option"
  query_sort :: "qval option"
  query_indexed :: "qval option"

record Context =
  ctx_query :: Query
  ctx_state_pageable :: "Pageable option"

text \<open>\<open>ctx.query.sort || null\<close>: an absent parameter and the empty string give \<open>null\<close>.\<close>

fun sort_or_null :: "qval option \<Rightarrow> sort_arg" where
  "sort_or_null None = NoSort"
| "sort_or_null (Some (QStr s)) = (if s = [] then NoSort else RawSort (QStr s))"
| "sort_or_null (Some (QArr xs)) = RawSort (QArr xs)"

text \<open>
  \<open>paginate(ctx, next)\<close>: a throw rejects the returned promise (\<open>Inl\<close>); otherwise the
  \<open>Pageable\<close> is stored in \<open>ctx.state\<close> and \<open>next()\<close> runs on the updated context, which
  is the result here.
\<close>

definition paginate :: "Context \<Rightarrow> error + Context" where
  "paginate ctx =
     (case parseOptionalIntOrThrow (query_page (ctx_query ctx)) of
        Inl e \<Rightarrow> Inl e
      | Inr p \<Rightarrow>
          (case parseOptionalIntOrThrow (query_size (ctx_query ctx)) of
             Inl e \<Rightarrow> Inl e
           | Inr s \<Rightarrow>
               (let page = or_default p (Fin 0);
                    size = or_default s (Fin 10);
                    sortArg = sort_or_null (query_sort (ctx_query ctx));
                    indexed = (query_indexed (ctx_query ctx) = Some (QStr ''true''))
                in case Pageable_ctor (Some page) (Some size) (Some indexed) sortArg of
                     Inl e \<Rightarrow> Inl e
                   | Inr pageable \<Rightarrow> Inr (ctx\<lparr>ctx_state_pageable := Some pageable\<rparr>))))"

section \<open>The vocabulary of the statements\<close>

text \<open>
  The definitions of this section follow the specification's words, not the code. For
  the sort parser: the tokens of a sort value (split on commas, arrays flattened
  element-wise, empty tokens dropped), the sub-tokens of a token (split on colons, empty
  ones dropped), the order a token stands for, and the tokens whose explicit direction is
  neither \<open>asc\<close> nor \<open>desc\<close>.
\<close>

definition spec_tokens :: "qval \<Rightarrow> string list" where
  "spec_tokens raw =
     filter (\<lambda>t. t \<noteq> [])
       (concat (map (split CHR '','') (case raw of QStr s \<Rightarrow> [s] | QArr xs \<Rightarrow> xs)))"

definition spec_subtokens :: "string \<Rightarrow> string list" where
  "spec_subtokens t = filter (\<lambda>v. v \<noteq> []) (split CHR '':'' t)"

definition spec_bad_direction :: "string \<Rightarrow> bool" where
  "spec_bad_direction t =
     (case spec_subtokens t of
        p # d # _ \<Rightarrow> d \<noteq> ''asc'' \<and> d \<noteq> ''desc''
      | _ \<Rightarrow> False)"

definition spec_order :: "string \<Rightarrow> Order" where
  "spec_order t =
     (case spec_subtokens t of
        [] \<Rightarrow> \<lparr>direction = asc, property = Undefined\<rparr>
      | [p] \<Rightarrow> \<lparr>direction = asc, property = Str p\<rparr>
      | p # d # _ \<Rightarrow> \<lparr>direction = (if d = ''desc'' then desc else asc), property = Str p\<rparr>)"

text \<open>A case-insensitive match of the text \<open>desc\<close>, letter by letter.\<close>

definition spec_ci_desc :: "string \<Rightarrow> bool" where
  "spec_ci_desc s =
     (case s of
        [a, b, c, e] \<Rightarrow>
          (a = CHR ''d'' \<or> a = CHR ''D'') \<and> (b = CHR ''e'' \<or> b = CHR ''E'') \<and>
          (c = CHR ''s'' \<or> c = CHR ''S'') \<and> (e = CHR ''c'' \<or> e = CHR ''C'')
      | _ \<Rightarrow> False)"

text \<open>A \<open>Pageable\<close> whose page and size are the integers \<open>p\<close> and \<open>s\<close>.\<close>

abbreviation int_pageable :: "int \<Rightarrow> int \<Rightarrow> Sort option \<Rightarrow> bool \<Rightarrow> Pageable" where
  "int_pageable p s so ix \<equiv>
     \<lparr>pageable_page = Fin (of_int p), pageable_size = Fin (of_int s),
      pageable_sort = so, pageable_indexed = ix\<rparr>"

text \<open>Two pages carry the same envelope: the eight fields of the base class agree.\<close>

definition same_envelope :: "'a Page_scheme \<Rightarrow> 'b Page_scheme \<Rightarrow> bool" where
  "same_envelope p q =
     (page_number p = page_number q \<and> page_size p = page_size q \<and>
      page_numberOfElements p = page_numberOfElements q \<and>
      page_totalElements p = page_totalElements q \<and>
      page_totalPages p = page_totalPages q \<and> page_sort p = page_sort q \<and>
      page_first p = page_first q \<and> page_last p = page_last q)"

text \<open>
  For the entry point. A numeric query parameter is given when it is present and not the
  empty string. Its text is an integer text when it is one optional sign followed by
  decimal digits, at least one, and nothing else; the integer it denotes is read
  positionally. It is a numeral when it is given, an integer text, and denotes an
  integer of magnitude below \<open>2^53\<close>. It is non-numeric when it is given and its text has
  no decimal digit right after its leading white space and one optional sign. The page
  of a request is the integer denoted, or 0 when the parameter is not given; the size is
  the integer denoted unless that is zero, or 10.
\<close>

definition spec_given :: "qval option \<Rightarrow> bool" where
  "spec_given v = (v \<noteq> None \<and> v \<noteq> Some (QStr []))"

definition spec_digits :: "string \<Rightarrow> string" where
  "spec_digits t =
     (case t of
        [] \<Rightarrow> []
      | c # r \<Rightarrow> if c = CHR ''-'' \<or> c = CHR ''+'' then r else t)"

definition spec_integer_text :: "string \<Rightarrow> bool" where
  "spec_integer_text t = (spec_digits t \<noteq> [] \<and> dropWhile isDigit (spec_digits t) = [])"

fun spec_decimal :: "string \<Rightarrow> nat" where
  "spec_decimal [] = 0"
| "spec_decimal (c # cs) = ((of_char c :: nat) - 48) * 10 ^ length cs + spec_decimal cs"

definition spec_integer_value :: "string \<Rightarrow> int" where
  "spec_integer_value t =
     (case t of
        [] \<Rightarrow> 0
      | c # r \<Rightarrow> if c = CHR ''-'' then - int (spec_decimal r)
                 else int (spec_decimal (spec_digits t)))"

definition spec_numeral :: "qval option \<Rightarrow> bool" where
  "spec_numeral v =
     (spec_given v \<and> spec_integer_text (ToString (the v)) \<and>
      \<bar>spec_integer_value (ToString (the v))\<bar> < 2 ^ 53)"

definition spec_numeral_or_absent :: "qval option \<Rightarrow> bool" where
  "spec_numeral_or_absent v = (if spec_given v then spec_numeral v else True)"

definition spec_no_leading_digit :: "string \<Rightarrow> bool" where
  "spec_no_leading_digit t =
     (case dropWhile isWhiteSpace t of
        [] \<Rightarrow> True
      | c # r \<Rightarrow>
          if c = CHR ''-'' \<or> c = CHR ''+'' then (case r of [] \<Rightarrow> True | c' # _ \<Rightarrow> \<not> isDigit c')
          else \<not> isDigit c)"

definition spec_non_numeric :: "qval option \<Rightarrow> bool" where
  "spec_non_numeric v = (spec_given v \<and> spec_no_leading_digit (ToString (the v)))"

definition spec_page :: "qval option \<Rightarrow> jsnum" where
  "spec_page v =
     (if spec_given v then Fin (of_int (spec_integer_value (ToString (the v)))) else Fin 0)"

definition spec_size :: "qval option \<Rightarrow> jsnum" where
  "spec_size v =
     (if spec_given v \<and> spec_integer_value (ToString (the v)) \<noteq> 0
      then Fin (of_int (spec_integer_value (ToString (the v)))) else Fin 10)"

text \<open>The number the code reads from a given parameter, and that number or a default.\<close>

abbreviation read_number :: "qval option \<Rightarrow> jsnum" where
  "read_number v \<equiv> parseInt (ToString (the v))"

abbreviation read_or :: "qval option \<Rightarrow> jsnum \<Rightarrow> jsnum" where
  "read_or v d \<equiv> or_default (if spec_given v then Some (read_number v) else None) d"

text \<open>A context whose query has the given page and size and nothing else.\<close>

abbreviation query_of :: "qval option \<Rightarrow> qval option \<Rightarrow> Context" where
  "query_of p s \<equiv>
     \<lparr>ctx_query = \<lparr>query_page = p, query_size = s, query_sort = None, query_indexed = None\<rparr>,
      ctx_state_pageable = None\<rparr>"

section \<open>Properties of the sort parser and of Order\<close>

text \<open>
  Sanity of the model of \<open>split\<close>: there is always a first piece, no piece contains the
  separator, and joining the pieces with the separator gives the string back.
\<close>

lemma split_not_Nil: "split sep s \<noteq> []"
  by (induction s) (auto split: list.splits)

lemma split_pieces: "t \<in> set (split sep s) \<Longrightarrow> sep \<notin> set t"
  by (induction s arbitrary: t) (auto split: if_splits list.splits)

lemma split_length: "length (split sep s) = Suc (count_list s sep)"
  by (induction s) (auto split: list.splits simp: split_not_Nil)

lemma split_join:
  "concat (map (\<lambda>t. sep # t) (split sep s)) = sep # s"
  by (induction s) (auto split: list.splits simp: split_not_Nil)

lemma toLowerCase_asc: "toLowerCase ''asc'' = ''asc''"
  by (simp add: toLowerCase_def lower_char_def char_of_def)

lemma toLowerCase_desc: "toLowerCase ''desc'' = ''desc''"
  by (simp add: toLowerCase_def lower_char_def char_of_def)

lemma of_char_lower_char:
  "(of_char (lower_char c) :: nat) =
     (if (65 \<le> (of_char c :: nat) \<and> (of_char c :: nat) \<le> 90) \<or>
         (192 \<le> (of_char c :: nat) \<and> (of_char c :: nat) \<le> 222 \<and> (of_char c :: nat) \<noteq> 215)
      then of_char c + 32 else of_char c)"
proof -
  have "(of_char c :: nat) < 256" by simp
  then show ?thesis
    by (auto simp: lower_char_def Let_def)
qed

lemma lower_char_letter:
  assumes "(of_char l :: nat) = n" "97 \<le> n" "n \<le> 122" "(of_char u :: nat) = n - 32"
  shows "lower_char c = l \<longleftrightarrow> c = l \<or> c = u"
proof -
  have "lower_char c = l \<longleftrightarrow> (of_char (lower_char c) :: nat) = of_char l"
    by simp
  also have "\<dots> \<longleftrightarrow> (of_char c :: nat) = of_char l \<or> (of_char c :: nat) = of_char u"
    unfolding of_char_lower_char using assms by auto
  also have "\<dots> \<longleftrightarrow> c = l \<or> c = u"
    by simp
  finally show ?thesis .
qed

lemma toLowerCase_desc_iff: "toLowerCase s = ''desc'' \<longleftrightarrow> spec_ci_desc s"
proof -
  have d: "\<And>c. lower_char c = CHR ''d'' \<longleftrightarrow> c = CHR ''d'' \<or> c = CHR ''D''"
    by (rule lower_char_letter [where n = 100]) simp_all
  have e: "\<And>c. lower_char c = CHR ''e'' \<longleftrightarrow> c = CHR ''e'' \<or> c = CHR ''E''"
    by (rule lower_char_letter [where n = 101]) simp_all
  have s: "\<And>c. lower_char c = CHR ''s'' \<longleftrightarrow> c = CHR ''s'' \<or> c = CHR ''S''"
    by (rule lower_char_letter [where n = 115]) simp_all
  have c: "\<And>c. lower_char c = CHR ''c'' \<longleftrightarrow> c = CHR ''c'' \<or> c = CHR ''C''"
    by (rule lower_char_letter [where n = 99]) simp_all
  show ?thesis
    by (simp add: toLowerCase_def spec_ci_desc_def d e s c split: list.splits)
qed

lemma Order_ctor_Str:
  "Order_ctor prop (Str d) =
     Inr \<lparr>direction = (if toLowerCase d = ''desc'' then desc else asc), property = prop\<rparr>"
  by (simp add: Order_ctor_def Order_DEFAULT_DIRECTION_def)

lemma Order_ctor_Direction:
  "Order_ctor prop (Str (Direction_text d)) = Inr \<lparr>direction = d, property = prop\<rparr>"
  by (cases d) (simp_all add: Order_ctor_Str toLowerCase_asc toLowerCase_desc)

lemma Order_ctor_asc:
  "Order_ctor prop (Str ''asc'') = Inr \<lparr>direction = asc, property = prop\<rparr>"
  using Order_ctor_Direction [of _ asc] by simp

lemma Order_ctor_desc:
  "Order_ctor prop (Str ''desc'') = Inr \<lparr>direction = desc, property = prop\<rparr>"
  using Order_ctor_Direction [of _ desc] by simp

lemma stringToDirection_Str:
  "d \<noteq> [] \<Longrightarrow> stringToDirection (Str d) =
     (if d = ''asc'' then Inr asc else if d = ''desc'' then Inr desc else Inl InvalidSortError)"
  by (simp add: stringToDirection_def)

lemma stringToDirection_Undefined: "stringToDirection Undefined = Inr asc"
  by (simp add: stringToDirection_def Order_DEFAULT_DIRECTION_def)

lemma filter_nonempty_conv: "filter (\<lambda>v. length v > 0) xs = filter (\<lambda>v. v \<noteq> []) xs"
  by (rule filter_cong) auto

lemma parseSort_order_eq:
  "parseSort_order t =
     (if spec_bad_direction t then Inl InvalidSortError else Inr (spec_order t))"
proof (cases "spec_subtokens t")
  case Nil
  then show ?thesis
    by (simp add: parseSort_order_def filter_nonempty_conv spec_subtokens_def [symmetric]
        spec_bad_direction_def spec_order_def at_index_def stringToDirection_Undefined
        Order_ctor_asc)
next
  case (Cons p ps)
  note outer = Cons
  show ?thesis
  proof (cases ps)
    case Nil
    with outer show ?thesis
      by (simp add: parseSort_order_def filter_nonempty_conv spec_subtokens_def [symmetric]
          spec_bad_direction_def spec_order_def at_index_def stringToDirection_Undefined
          Order_ctor_asc)
  next
    case (Cons d ds)
    have "d \<in> set (spec_subtokens t)"
      using outer Cons by simp
    then have "d \<noteq> []"
      by (simp add: spec_subtokens_def)
    with outer Cons show ?thesis
      by (simp add: parseSort_order_def filter_nonempty_conv spec_subtokens_def [symmetric]
          spec_bad_direction_def spec_order_def at_index_def stringToDirection_Str
          Order_ctor_asc Order_ctor_desc)
  qed
qed

lemma map_throw_eq:
  assumes "\<And>x. f x = (if bad x then Inl e else Inr (g x))"
  shows "map_throw f xs = (if \<exists>x\<in>set xs. bad x then Inl e else Inr (map g xs))"
  by (induction xs) (simp_all add: assms)

lemma parseSort_eq:
  "parseSort raw =
     (if \<exists>t\<in>set (spec_tokens raw). spec_bad_direction t then Inl InvalidSortError
      else Inr \<lparr>orders = map spec_order (spec_tokens raw)\<rparr>)"
proof -
  have "map_throw parseSort_order xs =
      (if \<exists>t\<in>set xs. spec_bad_direction t then Inl InvalidSortError
       else Inr (map spec_order xs))" for xs
    by (rule map_throw_eq) (rule parseSort_order_eq)
  then show ?thesis
    by (cases raw)
      (simp_all add: parseSort_def spec_tokens_def filter_nonempty_conv Sort_ctor_def Let_def)
qed

lemma spec_order_property: "property (spec_order t) \<noteq> Str []"
proof -
  have ne: "\<forall>v\<in>set (spec_subtokens t). v \<noteq> []"
    by (simp add: spec_subtokens_def)
  show ?thesis
  proof (cases "spec_subtokens t")
    case Nil
    then show ?thesis by (simp add: spec_order_def)
  next
    case (Cons p ps)
    with ne have "p \<noteq> []" by simp
    with Cons show ?thesis
      by (cases ps) (simp_all add: spec_order_def)
  qed
qed

lemma parseSort_Inl_truthy: "parseSort raw = Inl e \<Longrightarrow> truthy_sort (RawSort raw)"
  by (cases raw) (auto simp: parseSort_eq spec_tokens_def split: if_splits)

lemma Pageable_ctor_raw_Inl:
  "parseSort raw = Inl e \<Longrightarrow> Pageable_ctor pn ps ix (RawSort raw) = Inl e"
  by (frule parseSort_Inl_truthy) (simp add: Pageable_ctor_def)

lemma sort_or_null_Inl: "parseSort raw = Inl e \<Longrightarrow> sort_or_null (Some raw) = RawSort raw"
  by (cases raw) (auto simp: parseSort_eq spec_tokens_def split: if_splits)

text \<open>
  Claim C1. For every sort query value, \<open>parseSort\<close> splits on commas (an array
  element-wise, flattened), drops the empty tokens, splits each surviving token on colons
  dropping the empty sub-tokens, and returns a \<open>Sort\<close> whose orders are in token order,
  unless a token has an invalid direction. No order of the result has the empty string as
  its property. Parsing \<open>a,b:desc,c:asc\<close> gives the orders (a, asc), (b, desc), (c, asc);
  parsing \<open>a,,b,\<close> gives exactly the two orders a and b; parsing \<open>a::desc\<close> gives the
  single order (a, desc).
\<close>

theorem parseSort_orders:
  "parseSort raw =
     (if \<exists>t\<in>set (spec_tokens raw). spec_bad_direction t then Inl InvalidSortError
      else Inr \<lparr>orders = map spec_order (spec_tokens raw)\<rparr>) \<and>
   (\<forall>s. parseSort raw = Inr s \<longrightarrow> (\<forall>x\<in>set (orders s). property x \<noteq> Str [])) \<and>
   parseSort (QStr ''a,b:desc,c:asc'') =
     Inr \<lparr>orders = [\<lparr>direction = asc, property = Str ''a''\<rparr>,
                     \<lparr>direction = desc, property = Str ''b''\<rparr>,
                     \<lparr>direction = asc, property = Str ''c''\<rparr>]\<rparr> \<and>
   parseSort (QStr ''a,,b,'') =
     Inr \<lparr>orders = [\<lparr>direction = asc, property = Str ''a''\<rparr>,
                     \<lparr>direction = asc, property = Str ''b''\<rparr>]\<rparr> \<and>
   parseSort (QStr ''a::desc'') =
     Inr \<lparr>orders = [\<lparr>direction = desc, property = Str ''a''\<rparr>]\<rparr>"
proof (intro conjI)
  show "parseSort raw =
     (if \<exists>t\<in>set (spec_tokens raw). spec_bad_direction t then Inl InvalidSortError
      else Inr \<lparr>orders = map spec_order (spec_tokens raw)\<rparr>)"
    by (rule parseSort_eq)
  show "\<forall>s. parseSort raw = Inr s \<longrightarrow> (\<forall>x\<in>set (orders s). property x \<noteq> Str [])"
    by (auto simp: parseSort_eq spec_order_property split: if_splits)
  show "parseSort (QStr ''a,b:desc,c:asc'') =
     Inr \<lparr>orders = [\<lparr>direction = asc, property = Str ''a''\<rparr>,
                     \<lparr>direction = desc, property = Str ''b''\<rparr>,
                     \<lparr>direction = asc, property = Str ''c''\<rparr>]\<rparr>"
    by (simp add: parseSort_eq spec_tokens_def spec_bad_direction_def spec_order_def
        spec_subtokens_def)
  show "parseSort (QStr ''a,,b,'') =
     Inr \<lparr>orders = [\<lparr>direction = asc, property = Str ''a''\<rparr>,
                     \<lparr>direction = asc, property = Str ''b''\<rparr>]\<rparr>"
    by (simp add: parseSort_eq spec_tokens_def spec_bad_direction_def spec_order_def
        spec_subtokens_def)
  show "parseSort (QStr ''a::desc'') =
     Inr \<lparr>orders = [\<lparr>direction = desc, property = Str ''a''\<rparr>]\<rparr>"
    by (simp add: parseSort_eq spec_tokens_def spec_bad_direction_def spec_order_def
        spec_subtokens_def)
qed

theorem parseSort_orders_witness:
  "parseSort (QArr [''name,'', ''age::desc'']) =
     Inr \<lparr>orders = [\<lparr>direction = asc, property = Str ''name''\<rparr>,
                     \<lparr>direction = desc, property = Str ''age''\<rparr>]\<rparr>"
  using parseSort_orders [of "QArr [''name,'', ''age::desc'']"]
  by (simp add: spec_tokens_def spec_bad_direction_def spec_order_def spec_subtokens_def)

text \<open>
  Claim C2. \<open>parseSort\<close> raises \<open>InvalidSortError\<close> if and only if some token has a
  second non-empty sub-token that is neither \<open>asc\<close> nor \<open>desc\<close>, and it raises nothing
  else. An absent or empty direction gives the default ascending, an exact match gives
  that direction, any other non-empty text raises. The error is not caught: the
  \<open>Pageable\<close> constructor called with that raw value raises it, and so does \<open>paginate\<close>
  once the page and size parameters have been read.
\<close>

theorem parseSort_raises:
  "(parseSort raw = Inl InvalidSortError \<longleftrightarrow>
      (\<exists>t\<in>set (spec_tokens raw). spec_bad_direction t)) \<and>
   (\<forall>e. parseSort raw = Inl e \<longrightarrow> e = InvalidSortError) \<and>
   stringToDirection Undefined = Inr asc \<and>
   stringToDirection (Str []) = Inr asc \<and>
   stringToDirection (Str ''asc'') = Inr asc \<and>
   stringToDirection (Str ''desc'') = Inr desc \<and>
   (d \<noteq> [] \<and> d \<noteq> ''asc'' \<and> d \<noteq> ''desc'' \<longrightarrow>
      stringToDirection (Str d) = Inl InvalidSortError) \<and>
   (parseSort raw = Inl InvalidSortError \<longrightarrow>
      Pageable_ctor pn ps ix (RawSort raw) = Inl InvalidSortError) \<and>
   (parseSort raw = Inl InvalidSortError \<and> query_sort q = Some raw \<and>
    parseOptionalIntOrThrow (query_page q) = Inr p \<and>
    parseOptionalIntOrThrow (query_size q) = Inr s \<longrightarrow>
      paginate \<lparr>ctx_query = q, ctx_state_pageable = st\<rparr> = Inl InvalidSortError)"
proof (intro conjI)
  show "parseSort raw = Inl InvalidSortError \<longleftrightarrow>
      (\<exists>t\<in>set (spec_tokens raw). spec_bad_direction t)"
    by (simp add: parseSort_eq)
  show "\<forall>e. parseSort raw = Inl e \<longrightarrow> e = InvalidSortError"
    by (auto simp: parseSort_eq split: if_splits)
  show "stringToDirection Undefined = Inr asc"
    by (rule stringToDirection_Undefined)
  show "stringToDirection (Str []) = Inr asc"
    by (simp add: stringToDirection_def Order_DEFAULT_DIRECTION_def)
  show "stringToDirection (Str ''asc'') = Inr asc"
    by (simp add: stringToDirection_Str)
  show "stringToDirection (Str ''desc'') = Inr desc"
    by (simp add: stringToDirection_Str)
  show "d \<noteq> [] \<and> d \<noteq> ''asc'' \<and> d \<noteq> ''desc'' \<longrightarrow>
      stringToDirection (Str d) = Inl InvalidSortError"
    by (simp add: stringToDirection_Str)
  show "parseSort raw = Inl InvalidSortError \<longrightarrow>
      Pageable_ctor pn ps ix (RawSort raw) = Inl InvalidSortError"
    by (simp add: Pageable_ctor_raw_Inl)
  show "parseSort raw = Inl InvalidSortError \<and> query_sort q = Some raw \<and>
    parseOptionalIntOrThrow (query_page q) = Inr p \<and>
    parseOptionalIntOrThrow (query_size q) = Inr s \<longrightarrow>
      paginate \<lparr>ctx_query = q, ctx_state_pageable = st\<rparr> = Inl InvalidSortError"
    by (simp add: paginate_def sort_or_null_Inl Pageable_ctor_raw_Inl)
qed

theorem parseSort_raises_witness:
  "parseSort (QStr ''a:foo'') = Inl InvalidSortError \<and>
   stringToDirection (Str ''foo'') = Inl InvalidSortError \<and>
   Pageable_ctor (Some (Fin 0)) (Some (Fin 20)) (Some False) (RawSort (QStr ''a:foo'')) =
     Inl InvalidSortError \<and>
   paginate \<lparr>ctx_query = \<lparr>query_page = Some (QStr ''1''), query_size = Some (QStr ''20''),
                            query_sort = Some (QStr ''a:foo''),
                            query_indexed = Some (QStr ''true'')\<rparr>,
             ctx_state_pageable = None\<rparr> = Inl InvalidSortError"
proof -
  have bad: "\<exists>t\<in>set (spec_tokens (QStr ''a:foo'')). spec_bad_direction t"
    by (simp add: spec_tokens_def spec_bad_direction_def spec_subtokens_def)
  have pg: "parseOptionalIntOrThrow (Some (QStr ''1'')) = Inr (Some (Fin 1))"
    by (simp add: parseOptionalIntOrThrow_def parseIntOrThrow_def parseInt_def
        isWhiteSpace_def isDigit_def digits_value_def to_double_def)
  have sz: "parseOptionalIntOrThrow (Some (QStr ''20'')) = Inr (Some (Fin 20))"
    by (simp add: parseOptionalIntOrThrow_def parseIntOrThrow_def parseInt_def
        isWhiteSpace_def isDigit_def digits_value_def to_double_def)
  show ?thesis
    using bad pg sz
      parseSort_raises [of "QStr ''a:foo''" "''foo''" "Some (Fin 0)" "Some (Fin 20)" "Some False"
        "\<lparr>query_page = Some (QStr ''1''), query_size = Some (QStr ''20''),
          query_sort = Some (QStr ''a:foo''), query_indexed = Some (QStr ''true'')\<rparr>"
        "Some (Fin 1)" "Some (Fin 20)" None]
    by simp
qed

text \<open>
  Claim C9 says that constructing an \<open>Order\<close> never fails, the direction \<open>null\<close>
  included. With \<open>null\<close> the constructor reads \<open>toLowerCase\<close> from \<open>null\<close> and throws.
\<close>

theorem Order_ctor_null_counterexample:
  "Order_ctor (Str ''name'') Null = Inl TypeError"
  by (simp add: Order_ctor_def)

text \<open>
  Claim C9, amended. For every property and every direction argument that is a string
  (typos and the empty string included) or is omitted, the constructor succeeds, stores
  the property unchanged, and sets the direction to descending exactly when the argument
  is a case-insensitive match of \<open>desc\<close>, to ascending otherwise.
\<close>

theorem Order_ctor_lenient:
  "Order_ctor prop (Str d) =
     Inr \<lparr>direction = (if spec_ci_desc d then desc else asc), property = prop\<rparr> \<and>
   Order_ctor prop Undefined = Inr \<lparr>direction = asc, property = prop\<rparr>"
  by (simp add: Order_ctor_Str toLowerCase_desc_iff Order_ctor_def
      Order_DEFAULT_DIRECTION_def toLowerCase_asc)

theorem Order_ctor_lenient_witness:
  "Order_ctor (Str ''name'') (Str ''DeSC'') =
     Inr \<lparr>direction = desc, property = Str ''name''\<rparr> \<and>
   Order_ctor (Str ''name'') (Str ''descending'') =
     Inr \<lparr>direction = asc, property = Str ''name''\<rparr> \<and>
   Order_ctor (Str ''name'') (Str []) =
     Inr \<lparr>direction = asc, property = Str ''name''\<rparr> \<and>
   Order_ctor (Str ''name'') Undefined =
     Inr \<lparr>direction = asc, property = Str ''name''\<rparr>"
  using Order_ctor_lenient [of "Str ''name''" "''DeSC''"]
    Order_ctor_lenient [of "Str ''name''" "''descending''"]
    Order_ctor_lenient [of "Str ''name''" "[]"]
  by (simp add: spec_ci_desc_def)

section \<open>Properties of the page envelope\<close>

lemma ceiling_div_pos:
  fixes a b :: int
  assumes "0 < b"
  shows "\<lceil>(of_int a :: rat) / of_int b\<rceil> = (a + b - 1) div b"
proof -
  have "\<lceil>(of_int a :: rat) / of_int b\<rceil> = - (- a div b)"
    by (rule ceiling_divide_eq_div)
  also have "\<dots> = (a + b - 1) div b"
  proof (rule sym, rule int_div_pos_eq [where r = "b - 1 - (- a) mod b"])
    have "- a = b * (- a div b) + (- a) mod b"
      by simp
    then show "a + b - 1 = b * (- (- a div b)) + (b - 1 - (- a) mod b)"
      by (simp add: algebra_simps)
    show "0 \<le> b - 1 - (- a) mod b"
      using assms pos_mod_bound [of b "- a"] by linarith
    show "b - 1 - (- a) mod b < b"
      using assms pos_mod_sign [of b "- a"] by linarith
  qed
  finally show ?thesis .
qed

lemma ceil_div_int:
  "0 < s \<Longrightarrow> Math_ceil (js_div (Fin (of_int te)) (Fin (of_int s))) =
      Fin (of_int ((te + s - 1) div s))"
  by (simp add: ceiling_div_pos)

lemma Page_ctor_totalPages:
  "page_totalPages (Page_ctor te pg) =
     Math_max (Math_ceil (js_div te (pageable_size pg))) (Fin 1)"
  by (simp add: Page_ctor_def Let_def)

lemma totalPages_int:
  assumes "0 < s"
  shows "page_totalPages (Page_ctor (Fin (of_int te)) (int_pageable p s so ix)) =
           Fin (of_int (max ((te + s - 1) div s) 1))"
proof -
  have "page_totalPages (Page_ctor (Fin (of_int te)) (int_pageable p s so ix)) =
      Math_max (Fin (of_int ((te + s - 1) div s))) (Fin 1)"
    by (simp only: Page_ctor_totalPages Pageable.select_convs
        ceil_div_int [OF assms])
  also have "\<dots> = Fin (of_int (max ((te + s - 1) div s) 1))"
    by (simp add: max_def)
  finally show ?thesis .
qed

lemma Math_max_1_nonzero: "Math_max x (Fin 1) \<noteq> Fin 0"
  by (cases x) (simp_all add: max_def)

lemma totalPages_never_zero: "page_totalPages (Page_ctor te pg) \<noteq> Fin 0"
  by (simp add: Page_ctor_def Let_def Math_max_1_nonzero)

lemma last_int:
  assumes "0 < s"
  shows "page_last (Page_ctor (Fin (of_int te)) (int_pageable p s so ix)) \<longleftrightarrow>
           p \<ge> max ((te + s - 1) div s) 1 - 1"
proof -
  have "page_last (Page_ctor (Fin (of_int te)) (int_pageable p s so ix)) =
      js_ge (Fin (of_int p))
        (js_sub (page_totalPages (Page_ctor (Fin (of_int te)) (int_pageable p s so ix))) (Fin 1))"
    by (simp add: Page_ctor_def Let_def)
  also have "\<dots> \<longleftrightarrow> (of_int (max ((te + s - 1) div s) 1) - 1 :: rat) \<le> of_int p"
    by (simp add: totalPages_int [OF assms])
  also have "\<dots> \<longleftrightarrow> max ((te + s - 1) div s) 1 - 1 \<le> p"
    by (metis of_int_1 of_int_diff of_int_le_iff)
  finally show ?thesis .
qed

lemma first_int:
  "page_first (Page_ctor (Fin (of_int te)) (int_pageable p s so ix)) \<longleftrightarrow> p = 0"
  by (simp add: Page_ctor_def Let_def js_eq_def)

text \<open>
  Claim C3 says that with no elements every page has \<open>first = true\<close>, for all
  non-negative page numbers and sizes. Page 1 of an empty set is not the first page; and
  with size 0 the quotient \<open>0 / 0\<close> is \<open>NaN\<close>, so is \<open>totalPages\<close>, and \<open>last\<close> is false.
\<close>

theorem Page_empty_counterexample:
  "\<not> page_first (Page_ctor (Fin 0) \<lparr>pageable_page = Fin 1, pageable_size = Fin 10,
        pageable_sort = None, pageable_indexed = False\<rparr>) \<and>
   page_totalPages (Page_ctor (Fin 0) \<lparr>pageable_page = Fin 0, pageable_size = Fin 0,
        pageable_sort = None, pageable_indexed = False\<rparr>) = NaN \<and>
   \<not> page_last (Page_ctor (Fin 0) \<lparr>pageable_page = Fin 0, pageable_size = Fin 0,
        pageable_sort = None, pageable_indexed = False\<rparr>)"
  by (simp add: Page_ctor_def Let_def js_eq_def)

text \<open>
  Claim C3, amended. For every non-negative integer \<open>p\<close> and every positive integer
  \<open>s\<close>, the envelope built from \<open>totalElements = 0\<close> and a \<open>Pageable\<close> with page \<open>p\<close> and
  size \<open>s\<close> has \<open>totalPages = 1\<close> and \<open>last = true\<close>, and \<open>first = true\<close> exactly when
  \<open>p = 0\<close>. For a non-negative integer \<open>totalElements\<close> and a positive integer size,
  \<open>totalPages = max(ceil(totalElements / size), 1)\<close>; and \<open>totalPages\<close> is never zero,
  whatever the arguments.
\<close>

theorem Page_empty:
  "(0 \<le> p \<and> 1 \<le> s \<longrightarrow>
      page_totalPages (Page_ctor (Fin 0) (int_pageable p s so ix)) = Fin 1 \<and>
      page_last (Page_ctor (Fin 0) (int_pageable p s so ix)) \<and>
      (page_first (Page_ctor (Fin 0) (int_pageable p s so ix)) \<longleftrightarrow> p = 0)) \<and>
   (0 \<le> te \<and> 1 \<le> s \<longrightarrow>
      page_totalPages (Page_ctor (Fin (of_int te)) (int_pageable p s so ix)) =
        Fin (of_int (max \<lceil>(of_int te :: rat) / of_int s\<rceil> 1))) \<and>
   page_totalPages (Page_ctor tot pg) \<noteq> Fin 0"
proof (intro conjI impI)
  assume a: "0 \<le> p \<and> 1 \<le> s"
  then have s: "0 < s" by simp
  have z: "(0 + s - 1) div s = 0"
    using s by simp
  show "page_totalPages (Page_ctor (Fin 0) (int_pageable p s so ix)) = Fin 1"
    using totalPages_int [OF s, of 0 p so ix] z by simp
  show "page_last (Page_ctor (Fin 0) (int_pageable p s so ix))"
    using last_int [OF s, of 0 p so ix] z a by simp
  show "page_first (Page_ctor (Fin 0) (int_pageable p s so ix)) \<longleftrightarrow> p = 0"
    using first_int [of 0 p s so ix] by simp
next
  assume "0 \<le> te \<and> 1 \<le> s"
  then have s: "0 < s" by simp
  show "page_totalPages (Page_ctor (Fin (of_int te)) (int_pageable p s so ix)) =
        Fin (of_int (max \<lceil>(of_int te :: rat) / of_int s\<rceil> 1))"
    by (simp add: totalPages_int [OF s] ceiling_div_pos [OF s])
next
  show "page_totalPages (Page_ctor tot pg) \<noteq> Fin 0"
    by (rule totalPages_never_zero)
qed

theorem Page_empty_witness:
  "page_totalPages (Page_ctor (Fin 0) (int_pageable 3 5 None False)) = Fin 1 \<and>
   page_last (Page_ctor (Fin 0) (int_pageable 3 5 None False)) \<and>
   \<not> page_first (Page_ctor (Fin 0) (int_pageable 3 5 None False)) \<and>
   page_totalPages (Page_ctor (Fin (of_int 11)) (int_pageable 3 5 None False)) = Fin 3"
  using Page_empty [of 3 5 None False 11 "Fin 0" "int_pageable 3 5 None False"]
    ceiling_div_pos [of 5 11]
  by simp

text \<open>
  Claim C4 says that exactly the page numbered \<open>totalPages - 1\<close> has \<open>last = true\<close>.
  With one element and size 1 there is one page, and page 5 has \<open>last = true\<close> too.
\<close>

theorem Page_last_counterexample:
  "page_totalPages (Page_ctor (Fin 1) \<lparr>pageable_page = Fin 5, pageable_size = Fin 1,
        pageable_sort = None, pageable_indexed = False\<rparr>) = Fin 1 \<and>
   page_last (Page_ctor (Fin 1) \<lparr>pageable_page = Fin 5, pageable_size = Fin 1,
        pageable_sort = None, pageable_indexed = False\<rparr>)"
  by (simp add: Page_ctor_def Let_def)

text \<open>
  Claim C4, amended. For all integers \<open>totalElements \<ge> 1\<close> and \<open>size \<ge> 1\<close>,
  \<open>totalPages = ceil(totalElements / size)\<close>, and a page has \<open>last = true\<close> exactly when
  its number is at least \<open>totalPages - 1\<close>; among the page numbers up to
  \<open>totalPages - 1\<close>, exactly the page numbered \<open>totalPages - 1\<close> has \<open>last = true\<close>.
\<close>

theorem Page_last:
  "1 \<le> te \<and> 1 \<le> s \<longrightarrow>
     page_totalPages (Page_ctor (Fin (of_int te)) (int_pageable p s so ix)) =
       Fin (of_int \<lceil>(of_int te :: rat) / of_int s\<rceil>) \<and>
     (page_last (Page_ctor (Fin (of_int te)) (int_pageable p s so ix)) \<longleftrightarrow>
        p \<ge> \<lceil>(of_int te :: rat) / of_int s\<rceil> - 1) \<and>
     (p \<le> \<lceil>(of_int te :: rat) / of_int s\<rceil> - 1 \<longrightarrow>
        (page_last (Page_ctor (Fin (of_int te)) (int_pageable p s so ix)) \<longleftrightarrow>
           p = \<lceil>(of_int te :: rat) / of_int s\<rceil> - 1))"
proof
  assume a: "1 \<le> te \<and> 1 \<le> s"
  then have s: "0 < s" by simp
  have "s \<le> te + s - 1" using a by simp
  then have "0 < (te + s - 1) div s"
    using s by (simp only: pos_imp_zdiv_pos_iff)
  then have "1 \<le> (te + s - 1) div s"
    by simp
  then have m: "max ((te + s - 1) div s) 1 = \<lceil>(of_int te :: rat) / of_int s\<rceil>"
    by (simp add: ceiling_div_pos [OF s])
  show "page_totalPages (Page_ctor (Fin (of_int te)) (int_pageable p s so ix)) =
       Fin (of_int \<lceil>(of_int te :: rat) / of_int s\<rceil>) \<and>
     (page_last (Page_ctor (Fin (of_int te)) (int_pageable p s so ix)) \<longleftrightarrow>
        p \<ge> \<lceil>(of_int te :: rat) / of_int s\<rceil> - 1) \<and>
     (p \<le> \<lceil>(of_int te :: rat) / of_int s\<rceil> - 1 \<longrightarrow>
        (page_last (Page_ctor (Fin (of_int te)) (int_pageable p s so ix)) \<longleftrightarrow>
           p = \<lceil>(of_int te :: rat) / of_int s\<rceil> - 1))"
    using totalPages_int [OF s, of te p so ix] last_int [OF s, of te p so ix]
    unfolding m by auto
qed

theorem Page_last_witness:
  "page_totalPages (Page_ctor (Fin (of_int 7)) (int_pageable 3 2 None False)) = Fin 4 \<and>
   page_last (Page_ctor (Fin (of_int 7)) (int_pageable 3 2 None False)) \<and>
   \<not> page_last (Page_ctor (Fin (of_int 7)) (int_pageable 2 2 None False))"
  using Page_last [of 7 2 3 None False] Page_last [of 7 2 2 None False]
    ceiling_div_pos [of 2 7]
  by simp

section \<open>Properties of the page variants\<close>

lemma Pageable_ctor_field:
  "Pageable_ctor (Some n) (Some s) (Some ix) (sort_field_arg so) =
     Inr \<lparr>pageable_page = n, pageable_size = s, pageable_sort = so, pageable_indexed = ix\<rparr>"
  by (cases so) (simp_all add: Pageable_ctor_def)

lemma Page_ctor_indexed_irrelevant:
  "Page_ctor te (pg\<lparr>pageable_indexed := ix\<rparr>) = Page_ctor te pg"
  by (simp add: Page_ctor_def)

lemma ArrayPage_ctor_fields:
  "page_number (ArrayPage_ctor c te pg) = pageable_page pg"
  "page_size (ArrayPage_ctor c te pg) = pageable_size pg"
  "page_sort (ArrayPage_ctor c te pg) = pageable_sort pg"
  "page_totalElements (ArrayPage_ctor c te pg) = te"
  "page_totalPages (ArrayPage_ctor c te pg) = page_totalPages (Page_ctor te pg)"
  "page_first (ArrayPage_ctor c te pg) = page_first (Page_ctor te pg)"
  "page_last (ArrayPage_ctor c te pg) = page_last (Page_ctor te pg)"
  "page_numberOfElements (ArrayPage_ctor c te pg) =
     Some (length (case c of None \<Rightarrow> [] | Some xs \<Rightarrow> xs))"
  "array_content (ArrayPage_ctor c te pg) = (case c of None \<Rightarrow> [] | Some xs \<Rightarrow> xs)"
  by (simp_all add: ArrayPage_ctor_def Page_ctor_def Let_def Page.defs ArrayPage.defs)

lemma length_Array_map: "length (Array_map f xs) = length xs"
  by (simp add: Array_map_def)

lemma ArrayPage_map_ctor:
  "ArrayPage_map f (ArrayPage_ctor c te pg) =
     Inr (ArrayPage_ctor (Some (Array_map f (case c of None \<Rightarrow> [] | Some xs \<Rightarrow> xs))) te
            (pg\<lparr>pageable_indexed := False\<rparr>))"
  apply (simp add: ArrayPage_map_def ArrayPage_map_pageable_def Pageable_ctor_field
      ArrayPage_ctor_fields Let_def)
  apply (simp add: ArrayPage_ctor_def Page_ctor_def Let_def)
  done

lemma IndexedPage_ctor_fields:
  "page_number (IndexedPage_ctor ids ix te pg) = pageable_page pg"
  "page_size (IndexedPage_ctor ids ix te pg) = pageable_size pg"
  "page_sort (IndexedPage_ctor ids ix te pg) = pageable_sort pg"
  "page_totalElements (IndexedPage_ctor ids ix te pg) = te"
  "page_totalPages (IndexedPage_ctor ids ix te pg) = page_totalPages (Page_ctor te pg)"
  "page_first (IndexedPage_ctor ids ix te pg) = page_first (Page_ctor te pg)"
  "page_last (IndexedPage_ctor ids ix te pg) = page_last (Page_ctor te pg)"
  "page_numberOfElements (IndexedPage_ctor ids ix te pg) = Some (length ix)"
  "indexed_ids (IndexedPage_ctor ids ix te pg) = ids"
  "indexed_index (IndexedPage_ctor ids ix te pg) = ix"
  by (simp_all add: IndexedPage_ctor_def Page_ctor_def Let_def Page.defs IndexedPage.defs)

lemma IndexablePage_ctor_fields:
  "page_number (IndexablePage_ctor c te pg) = pageable_page pg"
  "page_size (IndexablePage_ctor c te pg) = pageable_size pg"
  "page_sort (IndexablePage_ctor c te pg) = pageable_sort pg"
  "page_totalElements (IndexablePage_ctor c te pg) = te"
  "page_totalPages (IndexablePage_ctor c te pg) = page_totalPages (Page_ctor te pg)"
  "page_first (IndexablePage_ctor c te pg) = page_first (Page_ctor te pg)"
  "page_last (IndexablePage_ctor c te pg) = page_last (Page_ctor te pg)"
  "page_numberOfElements (IndexablePage_ctor c te pg) =
     Some (length (case c of None \<Rightarrow> [] | Some xs \<Rightarrow> xs))"
  "indexable_content (IndexablePage_ctor c te pg) = (case c of None \<Rightarrow> [] | Some xs \<Rightarrow> xs)"
  "indexable_indexed (IndexablePage_ctor c te pg) = pageable_indexed pg"
  by (simp_all add: IndexablePage_ctor_def Page_ctor_def Let_def Page.defs IndexablePage.defs)

lemma mapValues_keys: "map fst (mapValues obj f) = map fst obj"
  by (induction obj) (auto simp: mapValues_def)

lemma length_mapValues: "length (mapValues obj f) = length obj"
  by (simp add: mapValues_def)

lemma map_of_mapValues:
  "map_of (mapValues obj f) k = map_option (\<lambda>v. f v k) (map_of obj k)"
  by (induction obj) (auto simp: mapValues_def)

lemma IndexedPage_map_ctor:
  "IndexedPage_map f (IndexedPage_ctor ids ix te pg) =
     Inr (IndexedPage_ctor ids (mapValues ix f) te (pg\<lparr>pageable_indexed := True\<rparr>))"
  apply (simp add: IndexedPage_map_def IndexedPage_map_pageable_def Pageable_ctor_field
      IndexedPage_ctor_fields Let_def)
  apply (simp add: IndexedPage_ctor_def Page_ctor_def Let_def)
  done

lemma IndexablePage_map_ctor:
  "IndexablePage_map f (IndexablePage_ctor c te pg) =
     Inr (IndexablePage_ctor (Some (Array_map f (case c of None \<Rightarrow> [] | Some xs \<Rightarrow> xs))) te pg)"
  apply (simp add: IndexablePage_map_def IndexablePage_pageable_def Pageable_ctor_field
      IndexablePage_ctor_fields Let_def)
  apply (simp add: IndexablePage_ctor_def Page_ctor_def Let_def)
  done

text \<open>
  Claim C6. For each page variant built by its constructor and every transform, \<open>map\<close>
  returns a new page with the same \<open>totalElements\<close>, \<open>number\<close>, \<open>size\<close>, \<open>sort\<close>,
  \<open>totalPages\<close>, \<open>first\<close>, \<open>last\<close> and \<open>numberOfElements\<close> as the source; only the content
  elements are transformed (for an \<open>IndexedPage\<close> the values of the index, the ids and
  the keys unchanged; an \<open>IndexablePage\<close> keeps its \<open>indexed\<close> flag). \<open>ArrayPage.map\<close>
  derives its \<open>Pageable\<close> with \<open>indexed\<close> false, \<open>IndexedPage.map\<close> with \<open>indexed\<close> true.
\<close>

theorem map_preserves_envelope:
  "(\<exists>r. ArrayPage_map f (ArrayPage_ctor c te pg) = Inr r \<and>
        same_envelope r (ArrayPage_ctor c te pg) \<and>
        array_content r = Array_map f (array_content (ArrayPage_ctor c te pg)) \<and>
        length (array_content r) = length (array_content (ArrayPage_ctor c te pg))) \<and>
   ArrayPage_map_pageable (ArrayPage_ctor c te pg) =
     Inr \<lparr>pageable_page = pageable_page pg, pageable_size = pageable_size pg,
          pageable_sort = pageable_sort pg, pageable_indexed = False\<rparr> \<and>
   (\<exists>r. IndexedPage_map g (IndexedPage_ctor ids ix te pg) = Inr r \<and>
        same_envelope r (IndexedPage_ctor ids ix te pg) \<and>
        indexed_ids r = ids \<and>
        map fst (indexed_index r) = map fst ix \<and>
        (\<forall>k. map_of (indexed_index r) k = map_option (\<lambda>v. g v k) (map_of ix k))) \<and>
   IndexedPage_map_pageable (IndexedPage_ctor ids ix te pg) =
     Inr \<lparr>pageable_page = pageable_page pg, pageable_size = pageable_size pg,
          pageable_sort = pageable_sort pg, pageable_indexed = True\<rparr> \<and>
   (\<exists>r. IndexablePage_map f (IndexablePage_ctor c te pg) = Inr r \<and>
        same_envelope r (IndexablePage_ctor c te pg) \<and>
        indexable_indexed r = indexable_indexed (IndexablePage_ctor c te pg) \<and>
        indexable_content r = Array_map f (indexable_content (IndexablePage_ctor c te pg)))"
proof (intro conjI)
  show "\<exists>r. ArrayPage_map f (ArrayPage_ctor c te pg) = Inr r \<and>
        same_envelope r (ArrayPage_ctor c te pg) \<and>
        array_content r = Array_map f (array_content (ArrayPage_ctor c te pg)) \<and>
        length (array_content r) = length (array_content (ArrayPage_ctor c te pg))"
    by (simp add: ArrayPage_map_ctor same_envelope_def ArrayPage_ctor_fields
        Page_ctor_indexed_irrelevant length_Array_map)
  show "ArrayPage_map_pageable (ArrayPage_ctor c te pg) =
     Inr \<lparr>pageable_page = pageable_page pg, pageable_size = pageable_size pg,
          pageable_sort = pageable_sort pg, pageable_indexed = False\<rparr>"
    by (simp add: ArrayPage_map_pageable_def Pageable_ctor_field ArrayPage_ctor_fields)
  show "\<exists>r. IndexedPage_map g (IndexedPage_ctor ids ix te pg) = Inr r \<and>
        same_envelope r (IndexedPage_ctor ids ix te pg) \<and>
        indexed_ids r = ids \<and>
        map fst (indexed_index r) = map fst ix \<and>
        (\<forall>k. map_of (indexed_index r) k = map_option (\<lambda>v. g v k) (map_of ix k))"
    by (simp add: IndexedPage_map_ctor same_envelope_def IndexedPage_ctor_fields
        Page_ctor_indexed_irrelevant mapValues_keys length_mapValues map_of_mapValues)
  show "IndexedPage_map_pageable (IndexedPage_ctor ids ix te pg) =
     Inr \<lparr>pageable_page = pageable_page pg, pageable_size = pageable_size pg,
          pageable_sort = pageable_sort pg, pageable_indexed = True\<rparr>"
    by (simp add: IndexedPage_map_pageable_def Pageable_ctor_field IndexedPage_ctor_fields)
  show "\<exists>r. IndexablePage_map f (IndexablePage_ctor c te pg) = Inr r \<and>
        same_envelope r (IndexablePage_ctor c te pg) \<and>
        indexable_indexed r = indexable_indexed (IndexablePage_ctor c te pg) \<and>
        indexable_content r = Array_map f (indexable_content (IndexablePage_ctor c te pg))"
    by (simp add: IndexablePage_map_ctor same_envelope_def IndexablePage_ctor_fields
        length_Array_map)
qed

theorem map_preserves_envelope_witness:
  "ArrayPage_map (\<lambda>x i. (x, 5 * i))
      (ArrayPage_ctor (Some [''Bob'', ''Steve'']) (Fin 2) (int_pageable 0 20 None True)) =
     Inr (ArrayPage_ctor (Some [(''Bob'', 0), (''Steve'', 5)]) (Fin 2)
            (int_pageable 0 20 None False))"
  using map_preserves_envelope [of "\<lambda>x i. (x, 5 * i)" "Some [''Bob'', ''Steve'']" "Fin 2"
      "int_pageable 0 20 None True" "\<lambda>v k. v" "[]" "[]"]
  by (simp add: ArrayPage_map_ctor Array_map_def)

subsection \<open>Serialising an IndexablePage\<close>

lemma map_of_obj_put: "map_of (obj_put es k v) = (map_of es)(k \<mapsto> v)"
  by (induction es) (auto simp: fun_eq_iff)

lemma keys_obj_put: "fst ` set (obj_put es k v) = insert k (fst ` set es)"
  by (simp add: dom_map_of_conv_image_fst [symmetric] map_of_obj_put)

lemma distinct_obj_put:
  "distinct (map fst es) \<Longrightarrow> distinct (map fst (obj_put es k v))"
proof (induction es)
  case Nil
  then show ?case by simp
next
  case (Cons e es)
  obtain k' v' where e: "e = (k', v')" by (cases e)
  show ?case
  proof (cases "k' = k")
    case True
    with Cons.prems e show ?thesis by simp
  next
    case False
    have "fst ` set (obj_put es k v) = insert k (fst ` set es)"
      by (rule keys_obj_put)
    with Cons False e show ?thesis by auto
  qed
qed

lemma foldl_obj_put_lookup:
  "map_of (foldl (\<lambda>result x. obj_put result (g x) x) acc xs) k =
     (case filter (\<lambda>x. g x = k) xs of [] \<Rightarrow> map_of acc k | y # ys \<Rightarrow> Some (last (y # ys)))"
proof (induction xs arbitrary: acc)
  case Nil
  then show ?case by simp
next
  case (Cons x xs)
  show ?case
    by (simp add: Cons.IH map_of_obj_put split: list.splits)
qed

lemma foldl_obj_put_keys:
  "fst ` set (foldl (\<lambda>result x. obj_put result (g x) x) acc xs) = fst ` set acc \<union> g ` set xs"
  by (induction xs arbitrary: acc) (auto simp: keys_obj_put)

lemma foldl_obj_put_distinct:
  "distinct (map fst acc) \<Longrightarrow>
   distinct (map fst (foldl (\<lambda>result x. obj_put result (g x) x) acc xs))"
  by (induction xs arbitrary: acc) (simp_all add: distinct_obj_put)

lemma keyBy_lookup:
  "map_of (keyBy xs g) k =
     (case filter (\<lambda>x. g x = k) xs of [] \<Rightarrow> None | y # ys \<Rightarrow> Some (last (y # ys)))"
  by (simp add: keyBy_def foldl_obj_put_lookup split: list.splits)

lemma keyBy_distinct: "distinct (map fst (keyBy xs g))"
  by (simp add: keyBy_def foldl_obj_put_distinct)

lemma keyBy_length: "length (keyBy xs g) = card (g ` set xs)"
proof -
  have "length (keyBy xs g) = length (map fst (keyBy xs g))"
    by simp
  also have "\<dots> = card (set (map fst (keyBy xs g)))"
    by (rule distinct_card [symmetric]) (rule keyBy_distinct)
  also have "set (map fst (keyBy xs g)) = g ` set xs"
    using foldl_obj_put_keys [of g "[]" xs] by (simp add: keyBy_def)
  finally show ?thesis .
qed

lemma IndexablePage_pageable_eq:
  "IndexablePage_pageable this =
     Inr \<lparr>pageable_page = page_number this, pageable_size = page_size this,
          pageable_sort = page_sort this, pageable_indexed = indexable_indexed this\<rparr>"
  by (simp add: IndexablePage_pageable_def Pageable_ctor_field)

text \<open>
  Claim C5. For every \<open>IndexablePage\<close>, \<open>toJSON\<close> with \<open>indexed\<close> true returns an
  \<open>IndexedPage\<close> whose ids are the \<open>id\<close> fields of the content elements in content
  order, and whose index has distinct keys and maps each id to the last element carrying
  it; with \<open>indexed\<close> false it returns an \<open>ArrayPage\<close> with the content unchanged. That
  result is a function of the receiver's fields, which \<open>toJSON\<close> does not assign, so two
  calls on the same instance give equal results.
\<close>

theorem IndexablePage_toJSON_shape:
  "(indexable_indexed this \<longrightarrow>
      (\<exists>r. IndexablePage_toJSON getId this = Inr (AsIndexed r) \<and>
           indexed_ids r = map getId (indexable_content this) \<and>
           (\<forall>k. map_of (indexed_index r) k =
              (case filter (\<lambda>x. getId x = k) (indexable_content this) of
                 [] \<Rightarrow> None
               | y # ys \<Rightarrow> Some (last (y # ys)))) \<and>
           distinct (map fst (indexed_index r)) \<and>
           page_numberOfElements r = Some (card (getId ` set (indexable_content this))) \<and>
           page_number r = page_number this \<and> page_size r = page_size this \<and>
           page_sort r = page_sort this \<and>
           page_totalElements r = page_totalElements this)) \<and>
   (\<not> indexable_indexed this \<longrightarrow>
      (\<exists>a. IndexablePage_toJSON getId this = Inr (AsArray a) \<and>
           array_content a = indexable_content this \<and>
           page_numberOfElements a = Some (length (indexable_content this)) \<and>
           page_number a = page_number this \<and> page_size a = page_size this \<and>
           page_sort a = page_sort this \<and>
           page_totalElements a = page_totalElements this) \<and>
      IndexablePage_toJSON getId this =
        Inr (AsArray (ArrayPage_ctor (Some (indexable_content this)) (page_totalElements this)
               \<lparr>pageable_page = page_number this, pageable_size = page_size this,
                pageable_sort = page_sort this, pageable_indexed = False\<rparr>)))"
proof (intro conjI impI)
  assume "indexable_indexed this"
  then show "\<exists>r. IndexablePage_toJSON getId this = Inr (AsIndexed r) \<and>
           indexed_ids r = map getId (indexable_content this) \<and>
           (\<forall>k. map_of (indexed_index r) k =
              (case filter (\<lambda>x. getId x = k) (indexable_content this) of
                 [] \<Rightarrow> None
               | y # ys \<Rightarrow> Some (last (y # ys)))) \<and>
           distinct (map fst (indexed_index r)) \<and>
           page_numberOfElements r = Some (card (getId ` set (indexable_content this))) \<and>
           page_number r = page_number this \<and> page_size r = page_size this \<and>
           page_sort r = page_sort this \<and>
           page_totalElements r = page_totalElements this"
    by (simp add: IndexablePage_toJSON_def IndexablePage_pageable_eq IndexedPage_ctor_fields
        keyBy_lookup keyBy_distinct keyBy_length Let_def)
next
  assume n: "\<not> indexable_indexed this"
  then show "\<exists>a. IndexablePage_toJSON getId this = Inr (AsArray a) \<and>
           array_content a = indexable_content this \<and>
           page_numberOfElements a = Some (length (indexable_content this)) \<and>
           page_number a = page_number this \<and> page_size a = page_size this \<and>
           page_sort a = page_sort this \<and>
           page_totalElements a = page_totalElements this"
    by (simp add: IndexablePage_toJSON_def IndexablePage_pageable_eq ArrayPage_ctor_fields)
  from n show "IndexablePage_toJSON getId this =
        Inr (AsArray (ArrayPage_ctor (Some (indexable_content this)) (page_totalElements this)
               \<lparr>pageable_page = page_number this, pageable_size = page_size this,
                pageable_sort = page_sort this, pageable_indexed = False\<rparr>))"
    by (simp add: IndexablePage_toJSON_def IndexablePage_pageable_eq)
qed

theorem IndexablePage_toJSON_shape_witness:
  "IndexablePage_toJSON fst
      (IndexablePage_ctor (Some [(1::nat, ''Bob''), (2, ''Steve''), (1, ''Robert'')]) (Fin 3)
         (int_pageable 0 20 None True)) =
     Inr (AsIndexed (IndexedPage_ctor [1, 2, 1] [(1, (1, ''Robert'')), (2, (2, ''Steve''))]
            (Fin 3) (int_pageable 0 20 None True))) \<and>
   IndexablePage_toJSON fst
      (IndexablePage_ctor (Some [(1::nat, ''Bob''), (2, ''Steve''), (1, ''Robert'')]) (Fin 3)
         (int_pageable 0 20 None False)) =
     Inr (AsArray (ArrayPage_ctor (Some [(1, ''Bob''), (2, ''Steve''), (1, ''Robert'')]) (Fin 3)
            (int_pageable 0 20 None False)))"
  using
    IndexablePage_toJSON_shape [of "IndexablePage_ctor
      (Some [(1::nat, ''Bob''), (2, ''Steve''), (1, ''Robert'')]) (Fin 3)
      (int_pageable 0 20 None True)" fst]
    IndexablePage_toJSON_shape [of "IndexablePage_ctor
      (Some [(1::nat, ''Bob''), (2, ''Steve''), (1, ''Robert'')]) (Fin 3)
      (int_pageable 0 20 None False)" fst]
  by (simp add: IndexablePage_toJSON_def IndexablePage_pageable_eq IndexablePage_ctor_fields
      keyBy_def)

section \<open>The iterator of Sort\<close>

lemma for_of_unfold:
  "for_of it =
     (if it_count it \<ge> length (it_values it) then []
      else (if it_count it + 1 < length (it_values it)
            then Some (it_values it ! (it_count it + 1)) else None) #
           for_of (it\<lparr>it_count := it_count it + 1, it_done := False\<rparr>))"
  by (subst for_of.simps) (simp add: iterator_next_def Let_def)

lemma for_of_eq:
  "for_of \<lparr>it_values = vs, it_count = c, it_done = d\<rparr> =
     (if c \<ge> length vs then [] else map Some (drop (c + 1) vs) @ [None])"
proof (induction "length vs - c" arbitrary: c d)
  case 0
  then show ?case by (subst for_of_unfold) simp
next
  case (Suc n)
  then have c: "c < length vs" by simp
  have n: "n = length vs - Suc c" using Suc.hyps(2) by simp
  show ?case
  proof (cases "Suc c < length vs")
    case True
    then have "drop (Suc c) vs = vs ! Suc c # drop (Suc (Suc c)) vs"
      by (simp add: Cons_nth_drop_Suc)
    with True c Suc.hyps(1) [OF n, of False] show ?thesis
      by (subst for_of_unfold) simp
  next
    case False
    with c Suc.hyps(1) [OF n, of False] show ?thesis
      by (subst for_of_unfold) simp
  qed
qed

lemma Sort_iterate_eq:
  "Sort_iterate s =
     (if orders s = [] then [] else map Some (tl (orders s)) @ [None])"
  by (simp add: Sort_iterate_def Sort_iterator_def for_of_eq drop_Suc)

text \<open>
  Claim C8 says that iterating a \<open>Sort\<close> yields each of its orders once, in sequence
  order. The iterator reads \<open>values[count += 1]\<close>: on the orders a, b a \<open>for ... of\<close> loop
  sees b and then \<open>undefined\<close>; the first order is never produced.
\<close>

theorem Sort_iterate_skips_first:
  "Sort_iterate (Sort_ctor [\<lparr>direction = asc, property = Str ''a''\<rparr>,
                            \<lparr>direction = desc, property = Str ''b''\<rparr>]) =
     [Some \<lparr>direction = desc, property = Str ''b''\<rparr>, None]"
  by (simp add: Sort_iterate_eq Sort_ctor_def)

section \<open>Properties of the entry point\<close>

lemma takeWhile_Nil_iff: "takeWhile P xs = [] \<longleftrightarrow> (case xs of [] \<Rightarrow> True | x # _ \<Rightarrow> \<not> P x)"
  by (cases xs) simp_all

lemma sign_not_digit: "\<not> isDigit CHR ''-''" "\<not> isDigit CHR ''+''"
  by (simp_all add: isDigit_def)

lemma sign_not_space: "\<not> isWhiteSpace CHR ''-''" "\<not> isWhiteSpace CHR ''+''"
  by (simp_all add: isWhiteSpace_def)

lemma digit_not_space: "isDigit c \<Longrightarrow> \<not> isWhiteSpace c"
  by (auto simp: isDigit_def isWhiteSpace_def)

lemma to_double_not_NaN: "to_double n \<noteq> NaN"
  by (simp add: to_double_def Let_def)

lemma js_neg_NaN_iff: "js_neg x = NaN \<longleftrightarrow> x = NaN"
  by (cases x) simp_all

lemma to_double_small: "n < 2 ^ 53 \<Longrightarrow> to_double n = Fin (of_nat n)"
  by (simp add: to_double_def)

lemma parseInt_NaN_iff: "parseInt s = NaN \<longleftrightarrow> spec_no_leading_digit s"
proof (cases "dropWhile isWhiteSpace s")
  case Nil
  show ?thesis
    by (simp only: parseInt_def spec_no_leading_digit_def Let_def Nil) simp
next
  case (Cons c r)
  show ?thesis
    by (simp only: parseInt_def spec_no_leading_digit_def Let_def Cons)
      (cases r; auto simp: takeWhile_Nil_iff sign_not_digit to_double_not_NaN js_neg_NaN_iff)
qed

lemma foldl_decimal:
  "foldl (\<lambda>acc c. 10 * acc + ((of_char c :: nat) - 48)) a z =
     a * 10 ^ length z + spec_decimal z"
  by (induction z arbitrary: a) (simp_all add: algebra_simps)

lemma digits_value_decimal: "digits_value z = spec_decimal z"
  by (simp add: digits_value_def foldl_decimal)

lemma all_digits: "dropWhile isDigit z = [] \<Longrightarrow> takeWhile isDigit z = z"
  by (simp add: dropWhile_eq_Nil_conv)

lemma parseInt_digits:
  assumes "z \<noteq> []" "dropWhile isDigit z = []" "int (spec_decimal z) < 2 ^ 53"
  shows "parseInt z = Fin (of_nat (spec_decimal z))"
    and "parseInt (CHR ''+'' # z) = Fin (of_nat (spec_decimal z))"
    and "parseInt (CHR ''-'' # z) = Fin (- of_nat (spec_decimal z))"
proof -
  obtain c r where z: "z = c # r"
    using assms(1) by (cases z) auto
  have c: "isDigit c"
    using assms(2) z by (simp split: if_splits)
  have cs: "c \<noteq> CHR ''-''" "c \<noteq> CHR ''+''"
    using c sign_not_digit by auto
  have tw: "takeWhile isDigit z = z"
    by (rule all_digits) (rule assms(2))
  have dw: "dropWhile isWhiteSpace z = z"
    using z digit_not_space [OF c] by simp
  have "spec_decimal z < 2 ^ 53"
    using assms(3) by (metis of_nat_less_iff of_nat_numeral of_nat_power)
  then have td: "to_double (digits_value z) = Fin (of_nat (spec_decimal z))"
    by (simp add: digits_value_decimal to_double_small)
  have neg: "(case z of c # _ \<Rightarrow> c = CHR ''-'' | [] \<Rightarrow> False) = False"
    using z cs by simp
  have rest: "(case z of c # r \<Rightarrow> if c = CHR ''-'' \<or> c = CHR ''+'' then r else z | [] \<Rightarrow> z) = z"
    using z cs by simp
  show "parseInt z = Fin (of_nat (spec_decimal z))"
    unfolding parseInt_def Let_def dw neg rest
    by (simp add: tw td assms(1))
  show "parseInt (CHR ''+'' # z) = Fin (of_nat (spec_decimal z))"
    unfolding parseInt_def Let_def
    by (simp add: sign_not_space tw td assms(1))
  show "parseInt (CHR ''-'' # z) = Fin (- of_nat (spec_decimal z))"
    unfolding parseInt_def Let_def
    by (simp add: sign_not_space tw td assms(1))
qed

lemma parseInt_integer_text:
  assumes "spec_integer_text t" "\<bar>spec_integer_value t\<bar> < 2 ^ 53"
  shows "parseInt t = Fin (of_int (spec_integer_value t))"
proof -
  obtain c r where t: "t = c # r"
    using assms(1) by (cases t) (auto simp: spec_integer_text_def spec_digits_def)
  show ?thesis
  proof (cases "c = CHR ''-''")
    case True
    with t assms have "r \<noteq> []" "dropWhile isDigit r = []" "int (spec_decimal r) < 2 ^ 53"
      by (simp_all add: spec_integer_text_def spec_digits_def spec_integer_value_def)
    from parseInt_digits(3) [OF this] True t show ?thesis
      by (simp add: spec_integer_value_def)
  next
    case nm: False
    show ?thesis
    proof (cases "c = CHR ''+''")
      case True
      with t assms have "r \<noteq> []" "dropWhile isDigit r = []" "int (spec_decimal r) < 2 ^ 53"
        by (simp_all add: spec_integer_text_def spec_digits_def spec_integer_value_def)
      from parseInt_digits(2) [OF this] True t show ?thesis
        by (simp add: spec_integer_value_def spec_digits_def)
    next
      case False
      with nm t have d: "spec_digits t = t"
        by (simp add: spec_digits_def)
      have v: "spec_integer_value t = int (spec_decimal t)"
        using nm t d by (simp add: spec_integer_value_def del: spec_decimal.simps)
      from assms d v have "t \<noteq> []" "dropWhile isDigit t = []" "int (spec_decimal t) < 2 ^ 53"
        by (simp_all add: spec_integer_text_def)
      from parseInt_digits(1) [OF this] v show ?thesis
        by simp
    qed
  qed
qed

lemma not_input_given: "not_input v \<longleftrightarrow> \<not> spec_given v"
  by (cases v rule: not_input.cases) (simp_all add: spec_given_def)

lemma parseOptionalIntOrThrow_eq:
  "parseOptionalIntOrThrow v =
     (if \<not> spec_given v then Inr None
      else if read_number v = NaN then Inl (NumberFormatError (ToString (the v)))
      else Inr (Some (read_number v)))"
  by (simp add: parseOptionalIntOrThrow_def parseIntOrThrow_def not_input_given Let_def)

lemma Pageable_ctor_Inr:
  "Pageable_ctor (Some n) (Some s) (Some ix) sa = Inr pg \<Longrightarrow>
     pageable_page pg = n \<and> pageable_size pg = s \<and> pageable_indexed pg = ix"
  by (cases sa) (auto simp: Pageable_ctor_def Let_def split: sum.splits if_splits)

lemma Pageable_ctor_Inl_iff:
  "Pageable_ctor n s ix sa = Inl e \<longleftrightarrow>
     (\<exists>raw. sa = RawSort raw \<and> parseSort raw = Inl e)"
proof (cases sa)
  case NoSort
  then show ?thesis by (simp add: Pageable_ctor_def)
next
  case (RawSort raw)
  show ?thesis
  proof (cases "parseSort raw")
    case (Inl e')
    with RawSort parseSort_Inl_truthy [OF Inl] show ?thesis
      by (simp add: Pageable_ctor_def)
  next
    case (Inr so)
    with RawSort show ?thesis
      by (simp add: Pageable_ctor_def Let_def)
  qed
next
  case (SortObj so)
  then show ?thesis by (simp add: Pageable_ctor_def)
qed

lemma paginate_eq:
  "paginate ctx =
     (if spec_given (query_page (ctx_query ctx)) \<and> read_number (query_page (ctx_query ctx)) = NaN
      then Inl (NumberFormatError (ToString (the (query_page (ctx_query ctx)))))
      else if spec_given (query_size (ctx_query ctx)) \<and>
              read_number (query_size (ctx_query ctx)) = NaN
      then Inl (NumberFormatError (ToString (the (query_size (ctx_query ctx)))))
      else (case Pageable_ctor (Some (read_or (query_page (ctx_query ctx)) (Fin 0)))
                  (Some (read_or (query_size (ctx_query ctx)) (Fin 10)))
                  (Some (query_indexed (ctx_query ctx) = Some (QStr ''true'')))
                  (sort_or_null (query_sort (ctx_query ctx))) of
              Inl e \<Rightarrow> Inl e
            | Inr pageable \<Rightarrow> Inr (ctx\<lparr>ctx_state_pageable := Some pageable\<rparr>)))"
  by (cases "spec_given (query_page (ctx_query ctx))";
      cases "read_number (query_page (ctx_query ctx)) = NaN";
      cases "spec_given (query_size (ctx_query ctx))";
      cases "read_number (query_size (ctx_query ctx)) = NaN")
    (simp_all add: paginate_def parseOptionalIntOrThrow_eq Let_def)

lemma sort_or_null_raw:
  "sort_or_null v = RawSort raw \<longleftrightarrow> v = Some raw \<and> raw \<noteq> QStr []"
  by (cases v rule: sort_or_null.cases) auto

lemma parseSort_empty: "parseSort (QStr []) = Inr \<lparr>orders = []\<rparr>"
  by (simp add: parseSort_eq spec_tokens_def)

lemma sort_or_null_parse_Inl:
  "(\<exists>raw. sort_or_null v = RawSort raw \<and> parseSort raw = Inl e) \<longleftrightarrow>
     (\<exists>raw. v = Some raw \<and> parseSort raw = Inl e)"
proof -
  have "raw \<noteq> QStr []" if "parseSort raw = Inl e" for raw
    using that parseSort_empty by auto
  then show ?thesis
    unfolding sort_or_null_raw by blast
qed

lemma paginate_Inl_iff:
  "paginate ctx = Inl e \<longleftrightarrow>
     (if spec_given (query_page (ctx_query ctx)) \<and> read_number (query_page (ctx_query ctx)) = NaN
      then e = NumberFormatError (ToString (the (query_page (ctx_query ctx))))
      else if spec_given (query_size (ctx_query ctx)) \<and>
              read_number (query_size (ctx_query ctx)) = NaN
      then e = NumberFormatError (ToString (the (query_size (ctx_query ctx))))
      else \<exists>raw. query_sort (ctx_query ctx) = Some raw \<and> parseSort raw = Inl e)"
proof -
  have "(case Pageable_ctor n s ix (sort_or_null v) of
           Inl e \<Rightarrow> Inl e
         | Inr pageable \<Rightarrow> Inr (ctx\<lparr>ctx_state_pageable := Some pageable\<rparr>)) = Inl e \<longleftrightarrow>
        (\<exists>raw. v = Some raw \<and> parseSort raw = Inl e)" for n s ix v
  proof -
    have "(case Pageable_ctor n s ix (sort_or_null v) of
           Inl e \<Rightarrow> Inl e
         | Inr pageable \<Rightarrow> Inr (ctx\<lparr>ctx_state_pageable := Some pageable\<rparr>)) = Inl e \<longleftrightarrow>
        Pageable_ctor n s ix (sort_or_null v) = Inl e"
      by (cases "Pageable_ctor n s ix (sort_or_null v)") simp_all
    then show ?thesis
      by (simp only: Pageable_ctor_Inl_iff sort_or_null_parse_Inl)
  qed
  then show ?thesis
    by (subst paginate_eq) (simp add: eq_commute [of _ e] del: not_None_eq)
qed

lemma paginate_Inr_fields:
  assumes "paginate ctx = Inr ctx'"
  shows "\<exists>pg. ctx' = ctx\<lparr>ctx_state_pageable := Some pg\<rparr> \<and>
           pageable_page pg = read_or (query_page (ctx_query ctx)) (Fin 0) \<and>
           pageable_size pg = read_or (query_size (ctx_query ctx)) (Fin 10) \<and>
           pageable_indexed pg = (query_indexed (ctx_query ctx) = Some (QStr ''true''))"
proof -
  let ?ctor = "Pageable_ctor (Some (read_or (query_page (ctx_query ctx)) (Fin 0)))
      (Some (read_or (query_size (ctx_query ctx)) (Fin 10)))
      (Some (query_indexed (ctx_query ctx) = Some (QStr ''true'')))
      (sort_or_null (query_sort (ctx_query ctx)))"
  have np: "\<not> (spec_given (query_page (ctx_query ctx)) \<and>
      read_number (query_page (ctx_query ctx)) = NaN)"
  proof
    assume "spec_given (query_page (ctx_query ctx)) \<and>
      read_number (query_page (ctx_query ctx)) = NaN"
    then have "paginate ctx =
        Inl (NumberFormatError (ToString (the (query_page (ctx_query ctx)))))"
      by (simp only: paginate_eq if_P)
    with assms show False by simp
  qed
  have ns: "\<not> (spec_given (query_size (ctx_query ctx)) \<and>
      read_number (query_size (ctx_query ctx)) = NaN)"
  proof
    assume "spec_given (query_size (ctx_query ctx)) \<and>
      read_number (query_size (ctx_query ctx)) = NaN"
    then have "paginate ctx =
        Inl (NumberFormatError (ToString (the (query_size (ctx_query ctx)))))"
      by (simp only: paginate_eq if_not_P [OF np] if_P)
    with assms show False by simp
  qed
  have "paginate ctx =
      (case ?ctor of Inl e \<Rightarrow> Inl e
       | Inr pageable \<Rightarrow> Inr (ctx\<lparr>ctx_state_pageable := Some pageable\<rparr>))"
    by (simp only: paginate_eq if_not_P [OF np] if_not_P [OF ns])
  with assms obtain pg where pg: "?ctor = Inr pg" "ctx' = ctx\<lparr>ctx_state_pageable := Some pg\<rparr>"
    by (cases ?ctor) auto
  from Pageable_ctor_Inr [OF pg(1)] pg(2) show ?thesis
    by blast
qed

lemma parseInt_examples:
  "parseInt ''0'' = Fin 0"
  "parseInt ''-3'' = Fin (- 3)"
  "parseInt ''-5'' = Fin (- 5)"
  "parseInt ''2'' = Fin 2"
  "parseInt ''abc'' = NaN"
  "parseInt ''12abc'' = Fin 12"
  by (simp_all add: parseInt_def isWhiteSpace_def isDigit_def digits_value_def to_double_def)

lemma paginate_no_sort:
  "paginate (query_of p s) =
     (if spec_given p \<and> read_number p = NaN then Inl (NumberFormatError (ToString (the p)))
      else if spec_given s \<and> read_number s = NaN then Inl (NumberFormatError (ToString (the s)))
      else Inr ((query_of p s)\<lparr>ctx_state_pageable :=
             Some \<lparr>pageable_page = read_or p (Fin 0), pageable_size = read_or s (Fin 10),
                   pageable_sort = None, pageable_indexed = False\<rparr>\<rparr>))"
  by (subst paginate_eq) (simp add: Pageable_ctor_def)

lemma or_default_nonzero: "d \<noteq> Fin 0 \<Longrightarrow> or_default x d \<noteq> Fin 0"
  by (cases x) (simp_all add: falsy_num_def)

lemma or_default_Fin:
  "or_default (Some (Fin (of_int n))) d = (if n = 0 then d else Fin (of_int n))"
  by (simp add: falsy_num_def)

lemma numeral_read:
  assumes "spec_numeral_or_absent v"
  shows "\<not> (spec_given v \<and> read_number v = NaN)"
    and "read_or v (Fin 0) = spec_page v"
    and "read_or v (Fin 10) = spec_size v"
proof -
  have r: "read_number v = Fin (of_int (spec_integer_value (ToString (the v))))" if "spec_given v"
    using assms that
    by (simp add: spec_numeral_or_absent_def spec_numeral_def parseInt_integer_text)
  show "\<not> (spec_given v \<and> read_number v = NaN)"
    using r by auto
  show "read_or v (Fin 0) = spec_page v"
  proof (cases "spec_given v")
    case True
    then show ?thesis
      by (simp only: r [OF True] if_True or_default_Fin spec_page_def) simp
  next
    case False
    then show ?thesis by (simp add: spec_page_def)
  qed
  show "read_or v (Fin 10) = spec_size v"
  proof (cases "spec_given v")
    case True
    then show ?thesis
      by (simp only: r [OF True] if_True or_default_Fin spec_size_def) simp
  next
    case False
    then show ?thesis by (simp add: spec_size_def)
  qed
qed

lemma parseSort_Inl_only: "parseSort raw \<noteq> Inl (NumberFormatError m)"
  by (simp add: parseSort_eq)

lemma non_numeric_raises:
  assumes "spec_non_numeric (query_page (ctx_query ctx)) \<or>
      spec_non_numeric (query_size (ctx_query ctx))"
  shows "\<exists>m. paginate ctx = Inl (NumberFormatError m)"
proof (cases "spec_given (query_page (ctx_query ctx)) \<and>
    read_number (query_page (ctx_query ctx)) = NaN")
  case True
  then have "paginate ctx =
      Inl (NumberFormatError (ToString (the (query_page (ctx_query ctx)))))"
    by (simp only: paginate_eq if_P)
  then show ?thesis by blast
next
  case False
  with assms have "spec_given (query_size (ctx_query ctx)) \<and>
      read_number (query_size (ctx_query ctx)) = NaN"
    by (auto simp: spec_non_numeric_def parseInt_NaN_iff)
  then have "paginate ctx =
      Inl (NumberFormatError (ToString (the (query_size (ctx_query ctx)))))"
    by (simp only: paginate_eq if_not_P [OF False] if_P)
  then show ?thesis by blast
qed

text \<open>
  Claim C7 says that \<open>Pageable.size\<close> is the integer parsed from the size parameter
  whenever that is present and non-empty. The text \<open>0\<close> parses to 0, and the size stored
  is 10. And a number is a double: the page text \<open>9007199254740993\<close>, which is
  \<open>2^53 + 1\<close>, is stored as \<open>9007199254740992\<close>.
\<close>

theorem paginate_size_zero_counterexample:
  "parseInt ''0'' = Fin 0 \<and>
   paginate (query_of None (Some (QStr ''0''))) =
     Inr ((query_of None (Some (QStr ''0'')))\<lparr>ctx_state_pageable :=
            Some \<lparr>pageable_page = Fin 0, pageable_size = Fin 10,
                  pageable_sort = None, pageable_indexed = False\<rparr>\<rparr>) \<and>
   paginate (query_of (Some (QStr ''9007199254740993'')) None) =
     Inr ((query_of (Some (QStr ''9007199254740993'')) None)\<lparr>ctx_state_pageable :=
            Some \<lparr>pageable_page = Fin 9007199254740992, pageable_size = Fin 10,
                  pageable_sort = None, pageable_indexed = False\<rparr>\<rparr>)"
proof (intro conjI)
  show "parseInt ''0'' = Fin 0"
    by (rule parseInt_examples)
  show "paginate (query_of None (Some (QStr ''0''))) =
     Inr ((query_of None (Some (QStr ''0'')))\<lparr>ctx_state_pageable :=
            Some \<lparr>pageable_page = Fin 0, pageable_size = Fin 10,
                  pageable_sort = None, pageable_indexed = False\<rparr>\<rparr>)"
    by (simp add: paginate_no_sort spec_given_def parseInt_examples falsy_num_def)
  have bl: "bitlen 9007199254740993 = 54"
    by (simp add: bitlen.simps)
  have td: "to_double 9007199254740993 = Fin 9007199254740992"
    by (simp add: to_double_def Let_def bl)
  have dv: "digits_value ''9007199254740993'' = 9007199254740993"
    by (simp add: digits_value_def)
  have "parseInt ''9007199254740993'' = Fin 9007199254740992"
    by (simp add: parseInt_def isWhiteSpace_def isDigit_def dv td)
  then show "paginate (query_of (Some (QStr ''9007199254740993'')) None) =
     Inr ((query_of (Some (QStr ''9007199254740993'')) None)\<lparr>ctx_state_pageable :=
            Some \<lparr>pageable_page = Fin 9007199254740992, pageable_size = Fin 10,
                  pageable_sort = None, pageable_indexed = False\<rparr>\<rparr>)"
    by (simp add: paginate_no_sort spec_given_def falsy_num_def)
qed

text \<open>
  Claim C7, amended. For every request query: \<open>paginate\<close> raises \<open>NumberFormatError\<close>
  when the page or the size parameter is present, non-empty and has no decimal digit
  right after its leading white space and one optional sign. When the page and the size
  parameter are each absent, empty or an integer numeral (one optional sign, then digits
  only) of magnitude below \<open>2^53\<close>, it raises no \<open>NumberFormatError\<close>, it succeeds
  exactly when the sort parameter has no invalid direction, and the stored \<open>Pageable\<close>
  has as page the integer of the page parameter, or 0 when absent or empty, and as size
  the integer of the size parameter unless that is zero, or 10 when it is zero, absent or
  empty. Whenever \<open>paginate\<close> succeeds, \<open>indexed\<close> is true if and only if the raw value is
  exactly the text \<open>true\<close>. Texts that begin with an integer and go on with other
  characters are left out of the statement.
\<close>

theorem paginate_query:
  "(spec_non_numeric (query_page (ctx_query ctx)) \<or>
    spec_non_numeric (query_size (ctx_query ctx)) \<longrightarrow>
      (\<exists>m. paginate ctx = Inl (NumberFormatError m))) \<and>
   (spec_numeral_or_absent (query_page (ctx_query ctx)) \<and>
    spec_numeral_or_absent (query_size (ctx_query ctx)) \<longrightarrow>
      (\<forall>m. paginate ctx \<noteq> Inl (NumberFormatError m)) \<and>
      ((\<exists>ctx'. paginate ctx = Inr ctx') \<longleftrightarrow>
         \<not> (\<exists>raw. query_sort (ctx_query ctx) = Some raw \<and>
               parseSort raw = Inl InvalidSortError)) \<and>
      (\<forall>ctx'. paginate ctx = Inr ctx' \<longrightarrow>
         (\<exists>pg. ctx' = ctx\<lparr>ctx_state_pageable := Some pg\<rparr> \<and>
               pageable_page pg = spec_page (query_page (ctx_query ctx)) \<and>
               pageable_size pg = spec_size (query_size (ctx_query ctx))))) \<and>
   (\<forall>ctx' pg. paginate ctx = Inr ctx' \<and> ctx_state_pageable ctx' = Some pg \<longrightarrow>
      pageable_indexed pg = (query_indexed (ctx_query ctx) = Some (QStr ''true'')))"
proof (intro conjI impI allI)
  assume "spec_non_numeric (query_page (ctx_query ctx)) \<or>
    spec_non_numeric (query_size (ctx_query ctx))"
  then show "\<exists>m. paginate ctx = Inl (NumberFormatError m)"
    by (rule non_numeric_raises)
next
  fix ctx' pg
  assume a: "paginate ctx = Inr ctx' \<and> ctx_state_pageable ctx' = Some pg"
  with paginate_Inr_fields [of ctx ctx']
  show "pageable_indexed pg = (query_indexed (ctx_query ctx) = Some (QStr ''true''))"
    by auto
next
  assume n: "spec_numeral_or_absent (query_page (ctx_query ctx)) \<and>
    spec_numeral_or_absent (query_size (ctx_query ctx))"
  note np = numeral_read [of "query_page (ctx_query ctx)"]
  note ns = numeral_read [of "query_size (ctx_query ctx)"]
  have inl: "paginate ctx = Inl e \<longleftrightarrow>
      (\<exists>raw. query_sort (ctx_query ctx) = Some raw \<and> parseSort raw = Inl e)" for e
    by (simp only: paginate_Inl_iff if_not_P [OF np(1)] if_not_P [OF ns(1)] n)
  {
    fix m
    show "paginate ctx \<noteq> Inl (NumberFormatError m)"
      by (simp add: inl parseSort_Inl_only)
  }
  have only: "(\<exists>e. parseSort raw = Inl e) \<longleftrightarrow> parseSort raw = Inl InvalidSortError" for raw
    by (simp add: parseSort_eq)
  have "(\<exists>ctx'. paginate ctx = Inr ctx') \<longleftrightarrow> \<not> (\<exists>e. paginate ctx = Inl e)"
    by (cases "paginate ctx") simp_all
  also have "\<dots> \<longleftrightarrow> \<not> (\<exists>e raw. query_sort (ctx_query ctx) = Some raw \<and> parseSort raw = Inl e)"
    by (simp only: inl)
  also have "\<dots> \<longleftrightarrow> \<not> (\<exists>raw. query_sort (ctx_query ctx) = Some raw \<and>
      parseSort raw = Inl InvalidSortError)"
    using only by blast
  finally show "(\<exists>ctx'. paginate ctx = Inr ctx') \<longleftrightarrow>
         \<not> (\<exists>raw. query_sort (ctx_query ctx) = Some raw \<and>
               parseSort raw = Inl InvalidSortError)" .
  {
    fix ctx'
    assume "paginate ctx = Inr ctx'"
    from paginate_Inr_fields [OF this]
    show "\<exists>pg. ctx' = ctx\<lparr>ctx_state_pageable := Some pg\<rparr> \<and>
               pageable_page pg = spec_page (query_page (ctx_query ctx)) \<and>
               pageable_size pg = spec_size (query_size (ctx_query ctx))"
      using n by (auto simp: np(2) ns(3))
  }
qed

theorem paginate_query_witness:
  "paginate (query_of (Some (QStr ''2'')) (Some (QStr ''abc''))) =
     Inl (NumberFormatError ''abc'') \<and>
   paginate (query_of (Some (QStr ''2'')) None) =
     Inr ((query_of (Some (QStr ''2'')) None)\<lparr>ctx_state_pageable :=
            Some \<lparr>pageable_page = Fin 2, pageable_size = Fin 10,
                  pageable_sort = None, pageable_indexed = False\<rparr>\<rparr>) \<and>
   spec_non_numeric (Some (QStr ''abc'')) \<and>
   spec_numeral_or_absent (Some (QStr ''2'')) \<and>
   spec_numeral_or_absent None \<and>
   spec_page (Some (QStr ''2'')) = Fin 2 \<and>
   spec_size None = Fin 10"
  using paginate_query [of "query_of (Some (QStr ''2'')) (Some (QStr ''abc''))"]
    paginate_query [of "query_of (Some (QStr ''2'')) None"]
  by (simp add: paginate_no_sort spec_given_def parseInt_examples falsy_num_def
      spec_non_numeric_def spec_no_leading_digit_def spec_numeral_or_absent_def
      spec_numeral_def spec_integer_text_def spec_digits_def spec_integer_value_def
      spec_page_def spec_size_def isWhiteSpace_def isDigit_def)

text \<open>
  Claim C10. A size that parses to 0 is replaced by the default: the stored size is 10
  for the query \<open>size=0\<close> and never 0; a page that parses to 0 coincides with the default
  0; parsed non-zero values, negative ones included, are stored as they are.
\<close>

theorem paginate_zero_default:
  "(\<forall>ctx' pg. paginate ctx = Inr ctx' \<and> ctx_state_pageable ctx' = Some pg \<longrightarrow>
      pageable_size pg \<noteq> Fin 0 \<and>
      (\<forall>t n. query_size (ctx_query ctx) = Some (QStr t) \<and> parseInt t = Fin n \<longrightarrow>
         pageable_size pg = (if n = 0 then Fin 10 else Fin n)) \<and>
      (\<forall>t n. query_page (ctx_query ctx) = Some (QStr t) \<and> parseInt t = Fin n \<longrightarrow>
         pageable_page pg = Fin n)) \<and>
   paginate (query_of None (Some (QStr ''0''))) =
     Inr ((query_of None (Some (QStr ''0'')))\<lparr>ctx_state_pageable :=
            Some \<lparr>pageable_page = Fin 0, pageable_size = Fin 10,
                  pageable_sort = None, pageable_indexed = False\<rparr>\<rparr>) \<and>
   paginate (query_of (Some (QStr ''0'')) None) =
     Inr ((query_of (Some (QStr ''0'')) None)\<lparr>ctx_state_pageable :=
            Some \<lparr>pageable_page = Fin 0, pageable_size = Fin 10,
                  pageable_sort = None, pageable_indexed = False\<rparr>\<rparr>) \<and>
   paginate (query_of (Some (QStr ''-3'')) (Some (QStr ''-5''))) =
     Inr ((query_of (Some (QStr ''-3'')) (Some (QStr ''-5'')))\<lparr>ctx_state_pageable :=
            Some \<lparr>pageable_page = Fin (- 3), pageable_size = Fin (- 5),
                  pageable_sort = None, pageable_indexed = False\<rparr>\<rparr>)"
proof (intro conjI allI impI)
  fix ctx' pg
  assume a: "paginate ctx = Inr ctx' \<and> ctx_state_pageable ctx' = Some pg"
  then obtain pg' where pg': "ctx' = ctx\<lparr>ctx_state_pageable := Some pg'\<rparr>"
      "pageable_page pg' = read_or (query_page (ctx_query ctx)) (Fin 0)"
      "pageable_size pg' = read_or (query_size (ctx_query ctx)) (Fin 10)"
    using paginate_Inr_fields [of ctx ctx'] by blast
  with a have pg: "pageable_page pg = read_or (query_page (ctx_query ctx)) (Fin 0)"
      "pageable_size pg = read_or (query_size (ctx_query ctx)) (Fin 10)"
    by simp_all
  show "pageable_size pg \<noteq> Fin 0"
    unfolding pg by (rule or_default_nonzero) simp
  {
    fix t n
    assume t: "query_size (ctx_query ctx) = Some (QStr t) \<and> parseInt t = Fin n"
    then have "t \<noteq> []"
      by (auto simp: parseInt_def)
    with t show "pageable_size pg = (if n = 0 then Fin 10 else Fin n)"
      by (simp add: pg spec_given_def falsy_num_def)
  }
  {
    fix t n
    assume t: "query_page (ctx_query ctx) = Some (QStr t) \<and> parseInt t = Fin n"
    then have "t \<noteq> []"
      by (auto simp: parseInt_def)
    with t show "pageable_page pg = Fin n"
      by (auto simp: pg spec_given_def falsy_num_def)
  }
next
  show "paginate (query_of None (Some (QStr ''0''))) =
     Inr ((query_of None (Some (QStr ''0'')))\<lparr>ctx_state_pageable :=
            Some \<lparr>pageable_page = Fin 0, pageable_size = Fin 10,
                  pageable_sort = None, pageable_indexed = False\<rparr>\<rparr>)"
    by (simp add: paginate_no_sort spec_given_def parseInt_examples falsy_num_def)
  show "paginate (query_of (Some (QStr ''0'')) None) =
     Inr ((query_of (Some (QStr ''0'')) None)\<lparr>ctx_state_pageable :=
            Some \<lparr>pageable_page = Fin 0, pageable_size = Fin 10,
                  pageable_sort = None, pageable_indexed = False\<rparr>\<rparr>)"
    by (simp add: paginate_no_sort spec_given_def parseInt_examples falsy_num_def)
  show "paginate (query_of (Some (QStr ''-3'')) (Some (QStr ''-5''))) =
     Inr ((query_of (Some (QStr ''-3'')) (Some (QStr ''-5'')))\<lparr>ctx_state_pageable :=
            Some \<lparr>pageable_page = Fin (- 3), pageable_size = Fin (- 5),
                  pageable_sort = None, pageable_indexed = False\<rparr>\<rparr>)"
    by (simp add: paginate_no_sort spec_given_def parseInt_examples falsy_num_def)
qed

theorem paginate_zero_default_witness:
  "paginate (query_of (Some (QStr ''2'')) (Some (QStr ''0''))) =
     Inr ((query_of (Some (QStr ''2'')) (Some (QStr ''0'')))\<lparr>ctx_state_pageable :=
            Some \<lparr>pageable_page = Fin 2, pageable_size = Fin 10,
                  pageable_sort = None, pageable_indexed = False\<rparr>\<rparr>) \<and>
   pageable_size \<lparr>pageable_page = Fin 2, pageable_size = Fin 10,
                  pageable_sort = None, pageable_indexed = False\<rparr> \<noteq> Fin 0"
proof -
  let ?ctx = "query_of (Some (QStr ''2'')) (Some (QStr ''0''))"
  let ?pg = "\<lparr>pageable_page = Fin 2, pageable_size = Fin 10,
                  pageable_sort = None, pageable_indexed = False\<rparr>"
  have run: "paginate ?ctx = Inr (?ctx\<lparr>ctx_state_pageable := Some ?pg\<rparr>)"
    by (simp add: paginate_no_sort spec_given_def parseInt_examples falsy_num_def)
  have st: "ctx_state_pageable (?ctx\<lparr>ctx_state_pageable := Some ?pg\<rparr>) = Some ?pg"
    by simp
  from paginate_zero_default [of ?ctx] run st
  have "pageable_size ?pg \<noteq> Fin 0"
    by blast
  with run show ?thesis by simp
qed


end
